theory Spec2Isabelle
  imports
    Complex_Main
    "HOL-Library.Char_ord"
    "HOL-Library.List_Lexorder"
    "HOL-Library.Sublist"
    "HOL-Library.Multiset"
    "HOL-Library.Code_Target_Numeral"
begin

section \<open>The comment dashboard: view state, derived views, persistence\<close>

text \<open>
  A shallow embedding of \<^verbatim>\<open>src/pages/Dashboard.tsx\<close>: the component's five pieces
  of view state, the derived values \<^verbatim>\<open>filtered\<close>, \<^verbatim>\<open>sorted\<close>, \<^verbatim>\<open>totalPages\<close> and
  \<^verbatim>\<open>paginated\<close>, the event handlers, and the two effects that read and write
  \<^verbatim>\<open>localStorage\<close>.

  Conventions of the model:
  \<^item> a JavaScript string is a \<^typ>\<open>string\<close>: a list of code units below 256 (the Latin-1
    range); \<^verbatim>\<open><\<close> on strings is the lexicographic order of the code units, as in
    JavaScript;
  \<^item> a JavaScript number is a \<open>number\<close>: \<^verbatim>\<open>NaN\<close>, the two infinities, the negative zero,
    or a rational that is a 64-bit binary floating-point value. \<^verbatim>\<open>Number\<close> produces
    them from strings, and hydration stores them;
  \<^item> the derived values and the event handlers are modelled on the states whose page and
    page size are integers, with \<^typ>\<open>int\<close> arithmetic: the view state is a record with
    the type of its two numbers as parameter, \<open>number\<close> right after hydration and
    \<^typ>\<open>int\<close> from then on. Where a JavaScript result is not an integer the function
    returns \<open>None\<close>;
  \<^item> the pages and the page sizes of a session are integers up to \<open>2^53\<close> in absolute
    value, and the comments are fewer than \<open>2^32\<close>. There the floating-point results of
    the code are the integer results of the model, except for sums and products beyond
    \<open>2^53\<close>, which the code only compares with \<^verbatim>\<open>totalPages\<close> or passes to
    \<^verbatim>\<open>slice\<close>, where they are clamped to the array, with the same outcome;
  \<^item> TypeScript's types are erased when the program runs, so \<^verbatim>\<open>sortKey\<close> and
    \<^verbatim>\<open>sortOrder\<close> hold whatever string the unchecked casts of lines 68 and 69 let in.
\<close>

subsection \<open>Data\<close>

record Comment =
  postId :: int
  id_c :: int
  name :: string
  email :: string
  body :: string

text \<open>
  The state hooks of lines 47 to 51, for a type \<open>'n\<close> of numbers. \<^verbatim>\<open>sortKey\<close> is
  \<^verbatim>\<open>SortKey | null\<close>: \<open>None\<close> is \<^verbatim>\<open>null\<close>.
\<close>

record 'n ViewState =
  search :: string
  page :: 'n
  pageSize :: 'n
  sortKey :: "string option"
  sortOrder :: string

text \<open>The initial values given to \<^verbatim>\<open>useState\<close>.\<close>

definition initial :: "int ViewState" where
  "initial = \<lparr>search = '''', page = 1, pageSize = 10, sortKey = None, sortOrder = ''none''\<rparr>"

subsection \<open>Filtering (lines 101 to 108)\<close>

text \<open>
  \<^verbatim>\<open>toLowerCase\<close>. Among the code units below 256 the upper-case letters are A to Z
  and the accented capitals \<open>0xC0\<close> to \<open>0xDE\<close> without the multiplication sign \<open>0xD7\<close>;
  each has its lower-case letter 32 places further on. Every other character is left as
  it is.
\<close>

definition upperLetters :: string where
  "upperLetters =
     ''ABCDEFGHIJKLMNOPQRSTUVWXYZ'' @
     [CHR 0xC0, CHR 0xC1, CHR 0xC2, CHR 0xC3, CHR 0xC4, CHR 0xC5, CHR 0xC6, CHR 0xC7,
      CHR 0xC8, CHR 0xC9, CHR 0xCA, CHR 0xCB, CHR 0xCC, CHR 0xCD, CHR 0xCE, CHR 0xCF,
      CHR 0xD0, CHR 0xD1, CHR 0xD2, CHR 0xD3, CHR 0xD4, CHR 0xD5, CHR 0xD6,
      CHR 0xD8, CHR 0xD9, CHR 0xDA, CHR 0xDB, CHR 0xDC, CHR 0xDD, CHR 0xDE]"

definition lowerLetters :: string where
  "lowerLetters =
     ''abcdefghijklmnopqrstuvwxyz'' @
     [CHR 0xE0, CHR 0xE1, CHR 0xE2, CHR 0xE3, CHR 0xE4, CHR 0xE5, CHR 0xE6, CHR 0xE7,
      CHR 0xE8, CHR 0xE9, CHR 0xEA, CHR 0xEB, CHR 0xEC, CHR 0xED, CHR 0xEE, CHR 0xEF,
      CHR 0xF0, CHR 0xF1, CHR 0xF2, CHR 0xF3, CHR 0xF4, CHR 0xF5, CHR 0xF6,
      CHR 0xF8, CHR 0xF9, CHR 0xFA, CHR 0xFB, CHR 0xFC, CHR 0xFD, CHR 0xFE]"

definition lowerChar :: "char \<Rightarrow> char" where
  "lowerChar c =
     (case map_of (zip upperLetters lowerLetters) c of
        Some l \<Rightarrow> l
      | None \<Rightarrow> c)"

definition toLowerCase :: "string \<Rightarrow> string" where
  "toLowerCase s = map lowerChar s"

text \<open>
  \<^verbatim>\<open>s.startsWith(q)\<close> and \<^verbatim>\<open>s.includes(q)\<close> (here \<open>includes_str\<close>): the search
  string is looked for at position 0, then 1, and so on up to the end of \<open>s\<close>.
\<close>

fun startsWith :: "string \<Rightarrow> string \<Rightarrow> bool" where
  "startsWith s [] = True"
| "startsWith [] (d # q) = False"
| "startsWith (c # s) (d # q) = (c = d \<and> startsWith s q)"

fun includes_str :: "string \<Rightarrow> string \<Rightarrow> bool" where
  "includes_str [] q = (q = [])"
| "includes_str (c # s) q = (startsWith (c # s) q \<or> includes_str s q)"

text \<open>
  \<^verbatim>\<open>[c.name, c.email, c.body].some((field) => field.toLowerCase().includes(query))\<close>
\<close>

definition matches :: "string \<Rightarrow> Comment \<Rightarrow> bool" where
  "matches query c =
     list_ex (\<lambda>field. includes_str (toLowerCase field) query) [name c, email c, body c]"

definition filtered :: "Comment list \<Rightarrow> 'n ViewState \<Rightarrow> Comment list" where
  "filtered comments s =
     (let query = toLowerCase (search s) in filter (matches query) comments)"

subsection \<open>Sorting (lines 111 to 121)\<close>

text \<open>
  \<^verbatim>\<open>a[sortKey]\<close> reads a property of a comment by name. The five fields of a comment
  give a number or a string; every other name gives a value that is neither less nor
  greater than itself (\<^verbatim>\<open>undefined\<close>, or the same inherited object for both comments),
  written \<open>Undefined\<close>.
\<close>

datatype val = Num int | Str string | Undefined

definition getField :: "Comment \<Rightarrow> string \<Rightarrow> val" where
  "getField c key =
     (if key = ''postId'' then Num (postId c)
      else if key = ''id'' then Num (id_c c)
      else if key = ''name'' then Str (name c)
      else if key = ''email'' then Str (email c)
      else if key = ''body'' then Str (body c)
      else Undefined)"

text \<open>
  \<^verbatim>\<open>aVal < bVal\<close>: numeric on two numbers, lexicographic on two strings, false when an
  operand is \<^verbatim>\<open>undefined\<close>. Both operands are read with the same key, so a number is
  never compared with a string; \<^verbatim>\<open>aVal > bVal\<close> is \<open>lt bVal aVal\<close>.
\<close>

fun lt :: "val \<Rightarrow> val \<Rightarrow> bool" where
  "lt (Num a) (Num b) = (a < b)"
| "lt (Str a) (Str b) = (a < b)"
| "lt _ _ = False"

text \<open>The comparison function of lines 113 to 120, for the key and the order of the state.\<close>

definition compareFn :: "string \<Rightarrow> string \<Rightarrow> Comment \<Rightarrow> Comment \<Rightarrow> int" where
  "compareFn key order a b =
     (let aVal = getField a key; bVal = getField b key in
      if lt aVal bVal then (if order = ''asc'' then - 1 else 1)
      else if lt bVal aVal then (if order = ''asc'' then 1 else - 1)
      else 0)"

text \<open>
  \<^verbatim>\<open>Array.prototype.sort\<close> with a comparison function. ECMAScript requires the sort to
  be stable and, for a consistent comparison function, to order the elements by it; the
  result is then the same for every algorithm. The model is insertion sort: an element
  goes in front of the first later element that it does not exceed.
\<close>

fun insert_cmp :: "('a \<Rightarrow> 'a \<Rightarrow> int) \<Rightarrow> 'a \<Rightarrow> 'a list \<Rightarrow> 'a list" where
  "insert_cmp cmp x [] = [x]"
| "insert_cmp cmp x (y # ys) =
     (if cmp x y \<le> 0 then x # y # ys else y # insert_cmp cmp x ys)"

definition sort_cmp :: "('a \<Rightarrow> 'a \<Rightarrow> int) \<Rightarrow> 'a list \<Rightarrow> 'a list" where
  "sort_cmp cmp xs = foldr (insert_cmp cmp) xs []"

text \<open>
  The memo \<^verbatim>\<open>sorted\<close>. \<^verbatim>\<open>!sortKey\<close> holds for \<^verbatim>\<open>null\<close> and for the empty string.
\<close>

definition sorted_view :: "Comment list \<Rightarrow> 'n ViewState \<Rightarrow> Comment list" where
  "sorted_view comments s =
     (case sortKey s of
        None \<Rightarrow> filtered comments s
      | Some key \<Rightarrow>
          if key = '''' \<or> sortOrder s = ''none'' then filtered comments s
          else sort_cmp (compareFn key (sortOrder s)) (filtered comments s))"

subsection \<open>Pagination (lines 123 and 124)\<close>

text \<open>
  \<^verbatim>\<open>Math.ceil(sorted.length / pageSize)\<close>. With a page size of 0 the quotient is
  \<^verbatim>\<open>Infinity\<close> or \<^verbatim>\<open>NaN\<close>, which is not an integer.
\<close>

definition totalPages :: "Comment list \<Rightarrow> int ViewState \<Rightarrow> int option" where
  "totalPages comments s =
     (if pageSize s = 0 then None
      else Some \<lceil>real (length (sorted_view comments s)) / real_of_int (pageSize s)\<rceil>)"



subsection \<open>Numbers and strings\<close>

text \<open>
  The values of JavaScript's type Number. \<open>Fin r\<close> is the finite value \<open>r\<close>, with
  \<open>Fin 0\<close> the positive zero; \<open>NegZero\<close> is \<^verbatim>\<open>-0\<close>.
\<close>

datatype number = NaN | PosInf | NegInf | NegZero | Fin rat

text \<open>An integer as a number, and a number as an integer when it is one of the integers
  from \<open>-2^53\<close> to \<open>2^53\<close>, which the floating-point format holds without gaps
  (\<open>2^53 = 9007199254740992\<close>). The negative zero counts as 0: no derived value and no
  handler of the component tells the two zeros apart in the page, and a page size of
  either zero gives a \<^verbatim>\<open>totalPages\<close> that is not an integer.\<close>

definition ofInt :: "int \<Rightarrow> number" where
  "ofInt n = Fin (of_int n)"

definition toInt :: "number \<Rightarrow> int option" where
  "toInt x =
     (case x of
        Fin r \<Rightarrow> if of_int \<lfloor>r\<rfloor> = r \<and> \<bar>r\<bar> \<le> 9007199254740992 then Some \<lfloor>r\<rfloor> else None
      | NegZero \<Rightarrow> Some 0
      | _ \<Rightarrow> None)"

text \<open>
  \<^verbatim>\<open>String(n)\<close> on an integer is its decimal form, with a minus sign when it is
  negative. (From \<open>10^21\<close> on JavaScript writes an exponent; the page and the page size
  of a session stay below \<open>2^53\<close>.)
\<close>

definition digitChar :: "nat \<Rightarrow> char" where
  "digitChar d = ''0123456789'' ! d"

fun digits :: "nat \<Rightarrow> string" where
  "digits n = (if n < 10 then [digitChar n] else digits (n div 10) @ [digitChar (n mod 10)])"

declare digits.simps [simp del]

definition String :: "int \<Rightarrow> string" where
  "String n = (if n < 0 then CHR ''-'' # digits (nat (- n)) else digits (nat n))"

text \<open>
  The value of a digit in the bases up to 16, the digits of a base, and the number that a
  string of digits writes in a base.
\<close>

definition digitValue :: "char \<Rightarrow> nat option" where
  "digitValue c =
     map_of (zip ''0123456789abcdefABCDEF''
               [0, 1, 2, 3, 4, 5, 6, 7, 8, 9, 10, 11, 12, 13, 14, 15, 10, 11, 12, 13, 14, 15]) c"

definition isDigit :: "nat \<Rightarrow> char \<Rightarrow> bool" where
  "isDigit base c = (case digitValue c of None \<Rightarrow> False | Some d \<Rightarrow> d < base)"

definition natOf :: "nat \<Rightarrow> string \<Rightarrow> nat" where
  "natOf base s =
     foldl (\<lambda>a c. base * a + (case digitValue c of None \<Rightarrow> 0 | Some d \<Rightarrow> d)) 0 s"

text \<open>
  The white space and the line terminators of ECMAScript among the code units below 256:
  tab, line feed, vertical tab, form feed, carriage return, space and no-break space.
  \<^verbatim>\<open>Number\<close> strips them from both ends of the string.
\<close>

definition isSpace :: "char \<Rightarrow> bool" where
  "isSpace c =
     (c \<in> set [CHR 0x09, CHR 0x0A, CHR 0x0B, CHR 0x0C, CHR 0x0D, CHR 0x20, CHR 0xA0])"

definition trim :: "string \<Rightarrow> string" where
  "trim s = rev (dropWhile isSpace (rev (dropWhile isSpace s)))"

text \<open>
  Rounding to the 64-bit binary floating-point format, for the positive rational \<open>a / b\<close>:
  to the nearest value with 53 significant bits, a tie going to the even one.
  \<open>roundHalfEven a b\<close> is \<open>a / b\<close> rounded to an integer in this way, \<open>bitlen n\<close> the
  number of binary digits of \<open>n\<close>, and \<open>exponent a b\<close> the \<open>e\<close> with
  \<open>2^e \<le> a / b < 2^(e + 1)\<close>. Below \<open>2^-1022\<close> the values are \<open>2^-1074\<close> apart;
  from \<open>2^1024\<close> on the result is an infinity, here \<open>None\<close>.
\<close>

definition roundHalfEven :: "nat \<Rightarrow> nat \<Rightarrow> nat" where
  "roundHalfEven a b =
     (let q = a div b; r = a mod b in
      if 2 * r < b then q else if b < 2 * r then q + 1 else if even q then q else q + 1)"

fun bitlen :: "nat \<Rightarrow> nat" where
  "bitlen n = (if n = 0 then 0 else Suc (bitlen (n div 2)))"

declare bitlen.simps [simp del]

definition exponent :: "nat \<Rightarrow> nat \<Rightarrow> int" where
  "exponent a b =
     (let d = int (bitlen a) - int (bitlen b) in
      if (if 0 \<le> d then b * 2 ^ nat d \<le> a else b \<le> a * 2 ^ nat (- d)) then d else d - 1)"

definition roundMag :: "nat \<Rightarrow> nat \<Rightarrow> rat option" where
  "roundMag a b =
     (if a = 0 then Some 0
      else
        let e = max (exponent a b) (- 1022);
            s = 52 - e;
            v = (if 0 \<le> s then of_nat (roundHalfEven (a * 2 ^ nat s) b) / 2 ^ nat s
                 else of_nat (roundHalfEven a (b * 2 ^ nat (- s))) * 2 ^ nat (- s))
        in if 2 ^ 1024 \<le> v then None else Some v)"

text \<open>The number for a sign and the magnitude \<open>a / b\<close>.\<close>

definition toNumber :: "bool \<Rightarrow> nat \<Rightarrow> nat \<Rightarrow> number" where
  "toNumber neg a b =
     (case roundMag a b of
        None \<Rightarrow> if neg then NegInf else PosInf
      | Some v \<Rightarrow> if neg then (if v = 0 then NegZero else Fin (- v)) else Fin v)"

text \<open>
  \<^verbatim>\<open>Number(v)\<close> on a string, by the grammar of ECMAScript for numeric strings: after
  the white space at both ends is dropped, the empty string is 0; \<^verbatim>\<open>0x\<close>, \<^verbatim>\<open>0o\<close> or
  \<^verbatim>\<open>0b\<close> (in either case) followed by digits of the base is that integer; otherwise
  there may be a sign, followed by \<^verbatim>\<open>Infinity\<close> or by decimal digits with an optional
  point among them or next to them and an optional exponent \<^verbatim>\<open>e\<close> or \<^verbatim>\<open>E\<close> with a
  signed integer. Every other string is \<^verbatim>\<open>NaN\<close>. The value written is rounded to the
  floating-point format.
\<close>

definition signedInteger :: "string \<Rightarrow> int option" where
  "signedInteger s =
     (case s of
        [] \<Rightarrow> None
      | c # r \<Rightarrow>
          let ds = (if c = CHR ''-'' \<or> c = CHR ''+'' then r else s) in
          if ds \<noteq> [] \<and> list_all (isDigit 10) ds
          then Some (if c = CHR ''-'' then - int (natOf 10 ds) else int (natOf 10 ds))
          else None)"

definition unsignedDecimal :: "bool \<Rightarrow> string \<Rightarrow> number" where
  "unsignedDecimal neg u =
     (if u = ''Infinity'' then (if neg then NegInf else PosInf)
      else
        let ip = takeWhile (isDigit 10) u;
            r1 = dropWhile (isDigit 10) u;
            dot = (r1 \<noteq> [] \<and> hd r1 = CHR ''.'');
            fp = (if dot then takeWhile (isDigit 10) (tl r1) else []);
            r2 = (if dot then dropWhile (isDigit 10) (tl r1) else r1);
            ex = (case r2 of
                    [] \<Rightarrow> Some 0
                  | c # r \<Rightarrow> if c = CHR ''e'' \<or> c = CHR ''E'' then signedInteger r else None)
        in if ip = [] \<and> fp = [] then NaN
           else
             (case ex of
                None \<Rightarrow> NaN
              | Some k \<Rightarrow>
                  let m = natOf 10 (ip @ fp); p = k - int (length fp) in
                  if 0 \<le> p then toNumber neg (m * 10 ^ nat p) 1
                  else toNumber neg m (10 ^ nat (- p))))"

definition nonDecimal :: "string \<Rightarrow> number option" where
  "nonDecimal t =
     (case t of
        c0 # c1 # ds \<Rightarrow>
          let base = (if c1 = CHR ''x'' \<or> c1 = CHR ''X'' then 16
                      else if c1 = CHR ''o'' \<or> c1 = CHR ''O'' then 8
                      else if c1 = CHR ''b'' \<or> c1 = CHR ''B'' then 2
                      else 0 :: nat)
          in if c0 = CHR ''0'' \<and> base \<noteq> 0
             then Some (if ds \<noteq> [] \<and> list_all (isDigit base) ds
                        then toNumber False (natOf base ds) 1 else NaN)
             else None
      | _ \<Rightarrow> None)"

definition Number :: "string \<Rightarrow> number" where
  "Number v =
     (let t = trim v in
      if t = [] then Fin 0
      else
        (case nonDecimal t of
           Some x \<Rightarrow> x
         | None \<Rightarrow>
             if hd t = CHR ''-'' then unsignedDecimal True (tl t)
             else if hd t = CHR ''+'' then unsignedDecimal False (tl t)
             else unsignedDecimal False t))"

subsection \<open>Event handlers\<close>

text \<open>The state setter \<^verbatim>\<open>setPage\<close> of line 48 stores its argument.\<close>

definition setPage :: "int \<Rightarrow> int ViewState \<Rightarrow> int ViewState" where
  "setPage n s = s\<lparr>page := n\<rparr>"

text \<open>
  \<^verbatim>\<open>handleSort\<close> (lines 126 to 139). The handler reads \<^verbatim>\<open>sortKey\<close> and \<^verbatim>\<open>sortOrder\<close>
  as they were when the component was rendered, and ends with \<^verbatim>\<open>setPage(1)\<close>.
\<close>

definition handleSort :: "string \<Rightarrow> int ViewState \<Rightarrow> int ViewState" where
  "handleSort key s =
     setPage 1
       (if sortKey s \<noteq> Some key then s\<lparr>sortKey := Some key, sortOrder := ''asc''\<rparr>
        else if sortOrder s = ''none'' then s\<lparr>sortOrder := ''asc''\<rparr>
        else if sortOrder s = ''asc'' then s\<lparr>sortOrder := ''desc''\<rparr>
        else s\<lparr>sortOrder := ''none'', sortKey := None\<rparr>)"

text \<open>\<^verbatim>\<open>handleReset\<close> (lines 148 to 154).\<close>

definition handleReset :: "int ViewState \<Rightarrow> int ViewState" where
  "handleReset s =
     s\<lparr>search := '''', page := 1, pageSize := 10, sortKey := None, sortOrder := ''none''\<rparr>"

text \<open>
  The number on the \<open>i\<close>-th page button (lines 527 to 537), for \<open>i\<close> from 0 below
  \<^verbatim>\<open>Math.min(5, totalPages)\<close>.
\<close>

definition pageNum :: "int \<Rightarrow> int \<Rightarrow> int \<Rightarrow> int" where
  "pageNum tot p i =
     (if tot \<le> 5 then i + 1
      else if p \<le> 3 then i + 1
      else if p \<ge> tot - 2 then tot - 4 + i
      else p - 2 + i)"

text \<open>
  What the user can do on the rendered page: type in the search box (line 304), choose a
  page size (line 317), press Reset (line 335), clear the search (lines 350 and 441),
  clear the sort (line 361), click a column header (lines 400, 408, 416), and press First,
  Previous, a page number, Next or Last (lines 507 to 570).
\<close>

datatype event =
    SearchChange string
  | PageSizeChange int
  | Reset
  | ClearSearch
  | ClearSort
  | SortClick string
  | First
  | Previous
  | PageButton int
  | Next
  | Last

text \<open>JavaScript's truth value of \<^verbatim>\<open>string | null\<close>: false for \<^verbatim>\<open>null\<close> and \<^verbatim>\<open>""\<close>.\<close>

definition truthy :: "string option \<Rightarrow> bool" where
  "truthy v = (v \<noteq> None \<and> v \<noteq> Some '''')"

text \<open>
  The pagination card is rendered when \<^verbatim>\<open>totalPages > 1\<close> (line 496); a button of the
  card that is not disabled calls \<^verbatim>\<open>setPage\<close> with its target.
\<close>

definition pager ::
  "Comment list \<Rightarrow> int ViewState \<Rightarrow> (int \<Rightarrow> bool) \<Rightarrow> (int \<Rightarrow> int) \<Rightarrow> int ViewState option" where
  "pager comments s enabled target =
     (case totalPages comments s of
        None \<Rightarrow> None
      | Some tot \<Rightarrow>
          if tot > 1 \<and> enabled tot then Some (setPage (target tot) s) else None)"

text \<open>
  One event. The result is \<open>None\<close> when the control is not on the page or is disabled
  in this state, so that the event cannot happen, and when \<^verbatim>\<open>totalPages\<close> is not an
  integer. The page size select offers 10, 25, 50 and 100 as strings and the handler
  converts the chosen one back with \<^verbatim>\<open>Number\<close>; the column headers pass \<^verbatim>\<open>"postId"\<close>,
  \<^verbatim>\<open>"name"\<close> and \<^verbatim>\<open>"email"\<close>.
\<close>

fun step :: "Comment list \<Rightarrow> event \<Rightarrow> int ViewState \<Rightarrow> int ViewState option" where
  "step comments (SearchChange v) s = Some (setPage 1 (s\<lparr>search := v\<rparr>))"
| "step comments (PageSizeChange sz) s =
     (if sz \<in> set [10, 25, 50, 100]
      then map_option (\<lambda>n. setPage 1 (s\<lparr>pageSize := n\<rparr>)) (toInt (Number (String sz)))
      else None)"
| "step comments Reset s = Some (handleReset s)"
| "step comments ClearSearch s =
     (if search s \<noteq> '''' then Some (s\<lparr>search := ''''\<rparr>) else None)"
| "step comments ClearSort s =
     (if truthy (sortKey s) then Some (s\<lparr>sortKey := None, sortOrder := ''none''\<rparr>) else None)"
| "step comments (SortClick key) s =
     (if key \<in> set [''postId'', ''name'', ''email''] then Some (handleSort key s) else None)"
| "step comments First s = pager comments s (\<lambda>tot. page s \<noteq> 1) (\<lambda>tot. 1)"
| "step comments Previous s =
     pager comments s (\<lambda>tot. page s \<noteq> 1) (\<lambda>tot. max (page s - 1) 1)"
| "step comments (PageButton i) s =
     pager comments s (\<lambda>tot. 0 \<le> i \<and> i < min 5 tot) (\<lambda>tot. pageNum tot (page s) i)"
| "step comments Next s =
     pager comments s (\<lambda>tot. page s \<noteq> tot) (\<lambda>tot. min (page s + 1) tot)"
| "step comments Last s = pager comments s (\<lambda>tot. page s \<noteq> tot) (\<lambda>tot. tot)"

fun run :: "Comment list \<Rightarrow> event list \<Rightarrow> int ViewState \<Rightarrow> int ViewState option" where
  "run comments [] s = Some s"
| "run comments (e # es) s =
     (case step comments e s of None \<Rightarrow> None | Some s' \<Rightarrow> run comments es s')"

subsection \<open>Persistence (lines 65 to 75 and 90 to 98)\<close>

text \<open>\<^verbatim>\<open>localStorage\<close>: \<^verbatim>\<open>getItem\<close> of a key that is not there is \<^verbatim>\<open>null\<close>.\<close>

type_synonym store = "string \<rightharpoonup> string"

text \<open>
  The effect of lines 90 to 98, which runs after every change of the state once loading is
  over. \<^verbatim>\<open>sortKey || ""\<close> is the key, or the empty string for \<^verbatim>\<open>null\<close>.
\<close>

definition persist :: "int ViewState \<Rightarrow> store \<Rightarrow> store" where
  "persist s st =
     st(''search'' \<mapsto> search s,
        ''page'' \<mapsto> String (page s),
        ''pageSize'' \<mapsto> String (pageSize s),
        ''sortKey'' \<mapsto> (case sortKey s of None \<Rightarrow> '''' | Some k \<Rightarrow> k),
        ''sortOrder'' \<mapsto> sortOrder s)"

text \<open>
  Lines 65 to 75, run once after the comments have arrived, on the state \<open>s\<close> of before:
  each of the five values is applied when it is there and not empty, the page and the page
  size through \<^verbatim>\<open>Number\<close>, whatever number that gives.
\<close>

definition hydrate :: "store \<Rightarrow> int ViewState \<Rightarrow> number ViewState" where
  "hydrate st s =
     (let savedSearch = st ''search'';
          savedPage = st ''page'';
          savedPageSize = st ''pageSize'';
          savedSortKey = st ''sortKey'';
          savedSortOrder = st ''sortOrder''
      in \<lparr>search = (if truthy savedSearch then the savedSearch else search s),
           page = (if truthy savedPage then Number (the savedPage) else ofInt (page s)),
           pageSize = (if truthy savedPageSize then Number (the savedPageSize)
                       else ofInt (pageSize s)),
           sortKey = (if truthy savedSortKey then savedSortKey else sortKey s),
           sortOrder = (if truthy savedSortOrder then the savedSortOrder else sortOrder s)\<rparr>)"

text \<open>
  The state with integers for its numbers, when its page and its page size are integers.
\<close>

definition integral :: "number ViewState \<Rightarrow> int ViewState option" where
  "integral s =
     (case toInt (page s) of
        None \<Rightarrow> None
      | Some p \<Rightarrow>
          (case toInt (pageSize s) of
             None \<Rightarrow> None
           | Some z \<Rightarrow>
               Some \<lparr>search = search s, page = p, pageSize = z,
                     sortKey = sortKey s, sortOrder = sortOrder s\<rparr>))"

text \<open>
  A session: the component starts from the initial state, hydrates it from the store, and
  then handles the user's events one after the other. The states a session can end in are
  the reachable states. The comments are a JavaScript array, which has fewer than
  \<open>2^32 = 4294967296\<close> elements; the result is \<open>None\<close> for a longer list, and when the
  hydrated page or page size is not an integer.
\<close>

definition session :: "store \<Rightarrow> Comment list \<Rightarrow> event list \<Rightarrow> int ViewState option" where
  "session st comments es =
     (if length comments < 4294967296
      then (case integral (hydrate st initial) of None \<Rightarrow> None | Some s \<Rightarrow> run comments es s)
      else None)"

subsection \<open>The vocabulary of the properties\<close>

text \<open>
  The invariant that the specification states for the sort fields: there is a sort key
  exactly when there is a sort order.
\<close>

definition coupled :: "'n ViewState \<Rightarrow> bool" where
  "coupled s = ((sortKey s = None) = (sortOrder s = ''none''))"

text \<open>
  The range that the specification states for the page: from 1 to
  \<open>max(1, ceil(filteredCount / pageSize))\<close>, for a page size other than 0.
\<close>

definition pageInRange :: "Comment list \<Rightarrow> int ViewState \<Rightarrow> bool" where
  "pageInRange comments s =
     (pageSize s \<noteq> 0 \<and> 1 \<le> page s
      \<and> page s \<le> max 1 \<lceil>real (length (filtered comments s)) / real_of_int (pageSize s)\<rceil>)"

text \<open>
  The states whose sort fields survive the store: the key is not the empty string and the
  order is not the empty string, the two values that hydration skips.
\<close>

definition restorable :: "int ViewState \<Rightarrow> bool" where
  "restorable s = (sortKey s \<noteq> Some '''' \<and> sortOrder s \<noteq> '''')"

text \<open>
  The states whose numbers survive the store: the page and the page size are among the
  integers from \<open>-2^53\<close> to \<open>2^53\<close>, which \<^verbatim>\<open>Number\<close> reads back as \<^verbatim>\<open>String\<close> wrote
  them.
\<close>

definition exact :: "int ViewState \<Rightarrow> bool" where
  "exact s = (\<bar>page s\<bar> \<le> 9007199254740992 \<and> \<bar>pageSize s\<bar> \<le> 9007199254740992)"


subsection \<open>Example data\<close>

definition sample :: "Comment list" where
  "sample =
     [\<lparr>postId = 2, id_c = 1, name = ''bob'', email = ''zed@x.org'', body = ''Acme Corp''\<rparr>,
      \<lparr>postId = 1, id_c = 2, name = ''alice'', email = ''al@x.org'', body = ''nothing''\<rparr>,
      \<lparr>postId = 3, id_c = 3, name = ''Carol'', email = ''c@x.org'', body = ''acme''\<rparr>]"

definition twelve :: "Comment list" where
  "twelve = map (\<lambda>i. \<lparr>postId = i, id_c = i, name = ''n'', email = ''e'', body = ''b''\<rparr>) [1..12]"

section \<open>Properties\<close>

subsection \<open>Facts about filtering\<close>



lemma includes_empty: "includes_str s []"
  by (induction s) auto











subsection \<open>Facts about sorting\<close>

lemma mset_insert_cmp: "mset (insert_cmp cmp x xs) = add_mset x (mset xs)"
  by (induction xs) auto

lemma mset_sort_cmp: "mset (sort_cmp cmp xs) = mset xs"
  by (induction xs) (auto simp: sort_cmp_def mset_insert_cmp)

lemma set_insert_cmp: "set (insert_cmp cmp x xs) = insert x (set xs)"
  by (induction xs) auto

lemma sorted_wrt_insert_cmp:
  assumes tot: "\<And>a b. le a b \<or> le b a"
    and tr: "\<And>a b c. le a b \<Longrightarrow> le b c \<Longrightarrow> le a c"
    and c: "\<And>a b. (cmp a b \<le> 0) = le a b"
    and s: "sorted_wrt le xs"
  shows "sorted_wrt le (insert_cmp cmp x xs)"
  using s
proof (induction xs)
  case Nil
  show ?case by simp
next
  case (Cons y ys)
  show ?case
  proof (cases "cmp x y \<le> 0")
    case True
    then have xy: "le x y" by (simp add: c)
    have "le x z" if "z \<in> set ys" for z
      using Cons.prems that tr [OF xy] by auto
    with True xy Cons.prems show ?thesis by auto
  next
    case False
    then have "le y x" using tot [of x y] by (simp add: c)
    with False Cons show ?thesis by (auto simp: set_insert_cmp)
  qed
qed

lemma sorted_wrt_sort_cmp:
  assumes "\<And>a b. le a b \<or> le b a"
    and "\<And>a b c. le a b \<Longrightarrow> le b c \<Longrightarrow> le a c"
    and "\<And>a b. (cmp a b \<le> 0) = le a b"
  shows "sorted_wrt le (sort_cmp cmp xs)"
proof (induction xs)
  case Nil
  show ?case by (simp add: sort_cmp_def)
next
  case (Cons x xs)
  have "sort_cmp cmp (x # xs) = insert_cmp cmp x (sort_cmp cmp xs)"
    by (simp add: sort_cmp_def)
  with Cons show ?case
    using sorted_wrt_insert_cmp [where le = le and cmp = cmp, OF assms] by simp
qed

lemma filter_insert_cmp_out: "\<not> P x \<Longrightarrow> filter P (insert_cmp cmp x xs) = filter P xs"
  by (induction xs) auto

lemma filter_insert_cmp_in:
  assumes "\<And>y. f y = f x \<Longrightarrow> cmp x y \<le> 0"
  shows "filter (\<lambda>y. f y = f x) (insert_cmp cmp x xs) = x # filter (\<lambda>y. f y = f x) xs"
  using assms by (induction xs) auto

lemma sort_cmp_stable:
  assumes "\<And>a b. f a = f b \<Longrightarrow> cmp a b \<le> 0"
  shows "filter (\<lambda>y. f y = k) (sort_cmp cmp xs) = filter (\<lambda>y. f y = k) xs"
proof (induction xs)
  case Nil
  show ?case by (simp add: sort_cmp_def)
next
  case (Cons x xs)
  have u: "sort_cmp cmp (x # xs) = insert_cmp cmp x (sort_cmp cmp xs)"
    by (simp add: sort_cmp_def)
  show ?case
  proof (cases "f x = k")
    case True
    have "filter (\<lambda>y. f y = f x) (insert_cmp cmp x (sort_cmp cmp xs))
          = x # filter (\<lambda>y. f y = f x) (sort_cmp cmp xs)"
      by (rule filter_insert_cmp_in) (simp add: assms)
    with True Cons show ?thesis by (simp add: u)
  next
    case False
    with Cons show ?thesis by (simp add: u filter_insert_cmp_out)
  qed
qed

lemma sort_cmp_desc_rev:
  fixes f :: "'a \<Rightarrow> 'k::linorder"
  assumes up: "\<And>a b. (cu a b \<le> 0) = (f a \<le> f b)"
    and dn: "\<And>a b. (cd a b \<le> 0) = (f b \<le> f a)"
    and d: "distinct (map f xs)"
  shows "sort_cmp cd xs = rev (sort_cmp cu xs)"
proof -
  let ?A = "sort_cmp cu xs" and ?D = "sort_cmp cd xs"
  have "sorted_wrt (\<lambda>a b. f a \<le> f b) ?A"
    by (rule sorted_wrt_sort_cmp) (auto simp: up)
  then have sA: "sorted (map f ?A)"
    by (simp add: sorted_wrt_map)
  have "sorted_wrt (\<lambda>a b. f b \<le> f a) ?D"
    by (rule sorted_wrt_sort_cmp) (auto simp: dn)
  then have sD: "sorted (map f (rev ?D))"
    by (simp add: sorted_wrt_map sorted_wrt_rev)
  have mA: "mset (map f ?A) = mset (map f xs)"
    by (simp add: mset_sort_cmp)
  have mD: "mset (map f (rev ?D)) = mset (map f xs)"
    by (simp add: mset_sort_cmp)
  have dA: "distinct (map f ?A)"
    using mA d mset_eq_imp_distinct_iff by blast
  have dD: "distinct (map f (rev ?D))"
    using mD d mset_eq_imp_distinct_iff by blast
  have "set (map f ?A) = set (map f (rev ?D))"
    using mA mD by (metis set_mset_mset)
  then have e: "map f ?A = map f (rev ?D)"
    using sA sD dA dD sorted_distinct_set_unique by blast
  have "set ?A = set xs" "set (rev ?D) = set xs"
    using mset_sort_cmp [of cu xs] mset_sort_cmp [of cd xs] by (metis set_mset_mset set_rev)+
  moreover have "inj_on f (set xs)"
    using d by (simp add: distinct_map)
  ultimately have "inj_on f (set ?A \<union> set (rev ?D))" by simp
  then have "?A = rev ?D"
    using e inj_on_map_eq_map by blast
  then show ?thesis by (metis rev_rev_ident)
qed

lemma lt_irrefl: "\<not> lt v v"
  by (cases v) auto

lemma compareFn_same_value: "getField a k = getField b k \<Longrightarrow> compareFn k ord a b \<le> 0"
  by (simp add: compareFn_def lt_irrefl)

lemma compareFn_postId:
  "(compareFn ''postId'' ''asc'' a b \<le> 0) = (postId a \<le> postId b)"
  "(compareFn ''postId'' ''desc'' a b \<le> 0) = (postId b \<le> postId a)"
  by (auto simp: compareFn_def getField_def)

lemma compareFn_name:
  "(compareFn ''name'' ''asc'' a b \<le> 0) = (name a \<le> name b)"
  "(compareFn ''name'' ''desc'' a b \<le> 0) = (name b \<le> name a)"
  by (auto simp: compareFn_def getField_def)

lemma compareFn_email:
  "(compareFn ''email'' ''asc'' a b \<le> 0) = (email a \<le> email b)"
  "(compareFn ''email'' ''desc'' a b \<le> 0) = (email b \<le> email a)"
  by (auto simp: compareFn_def getField_def)

lemma filtered_sort_fields [simp]:
  "filtered C (s\<lparr>sortKey := k, sortOrder := ord\<rparr>) = filtered C s"
  by (simp add: filtered_def)

lemma sorted_view_sorts:
  "k \<noteq> '''' \<Longrightarrow> ord \<noteq> ''none'' \<Longrightarrow>
   sorted_view C (s\<lparr>sortKey := Some k, sortOrder := ord\<rparr>)
     = sort_cmp (compareFn k ord) (filtered C s)"
  by (simp add: sorted_view_def)

lemma sorted_view_cases:
  "sorted_view C s = filtered C s
   \<or> (\<exists>k. sortKey s = Some k \<and> sorted_view C s = sort_cmp (compareFn k (sortOrder s)) (filtered C s))"
  by (auto simp: sorted_view_def split: option.splits)

lemma mset_sorted_view: "mset (sorted_view C s) = mset (filtered C s)"
  using sorted_view_cases [of C s] by (auto simp: mset_sort_cmp)

lemma sorted_view_stable:
  assumes "sortKey s = Some k"
  shows "filter (\<lambda>c. getField c k = v) (sorted_view C s)
         = filter (\<lambda>c. getField c k = v) (filtered C s)"
proof -
  have "filter (\<lambda>c. getField c k = v) (sort_cmp (compareFn k (sortOrder s)) (filtered C s))
        = filter (\<lambda>c. getField c k = v) (filtered C s)"
    by (rule sort_cmp_stable) (rule compareFn_same_value)
  with assms show ?thesis
    using sorted_view_cases [of C s] by auto
qed

lemma sorted_view_asc:
  fixes f :: "Comment \<Rightarrow> 'k::linorder"
  assumes "\<And>a b. (compareFn k ''asc'' a b \<le> 0) = (f a \<le> f b)" and "k \<noteq> ''''"
  shows "sorted (map f (sorted_view C (s\<lparr>sortKey := Some k, sortOrder := ''asc''\<rparr>)))"
proof -
  have "sorted_wrt (\<lambda>a b. f a \<le> f b) (sort_cmp (compareFn k ''asc'') (filtered C s))"
    by (rule sorted_wrt_sort_cmp) (auto simp: assms)
  then show ?thesis
    using assms(2) by (simp add: sorted_view_sorts sorted_wrt_map)
qed

lemma sorted_view_desc:
  fixes f :: "Comment \<Rightarrow> 'k::linorder"
  assumes "\<And>a b. (compareFn k ''desc'' a b \<le> 0) = (f b \<le> f a)" and "k \<noteq> ''''"
  shows "sorted (rev (map f (sorted_view C (s\<lparr>sortKey := Some k, sortOrder := ''desc''\<rparr>))))"
proof -
  have "sorted_wrt (\<lambda>a b. f b \<le> f a) (sort_cmp (compareFn k ''desc'') (filtered C s))"
    by (rule sorted_wrt_sort_cmp) (auto simp: assms)
  then show ?thesis
    using assms(2) by (simp add: sorted_view_sorts sorted_wrt_map sorted_wrt_rev flip: rev_map)
qed

lemma sorted_view_desc_rev:
  fixes f :: "Comment \<Rightarrow> 'k::linorder"
  assumes "\<And>a b. (compareFn k ''asc'' a b \<le> 0) = (f a \<le> f b)"
    and "\<And>a b. (compareFn k ''desc'' a b \<le> 0) = (f b \<le> f a)"
    and "k \<noteq> ''''"
    and "distinct (map f (filtered C s))"
  shows "sorted_view C (s\<lparr>sortKey := Some k, sortOrder := ''desc''\<rparr>)
         = rev (sorted_view C (s\<lparr>sortKey := Some k, sortOrder := ''asc''\<rparr>))"
  using assms(3) sort_cmp_desc_rev [of "compareFn k ''asc''" f "compareFn k ''desc''", OF assms(1,2,4)]
  by (simp add: sorted_view_sorts)

text \<open>
  Claim C7. The sorted view is a rearrangement of the filtered view (never of the raw
  input). It is stable: the comments that share a value of the sort key come in the order
  they have in the filtered view. Ascending order on \<^verbatim>\<open>postId\<close> is the order of the
  integers, on \<^verbatim>\<open>name\<close> and \<^verbatim>\<open>email\<close> the lexicographic order of the strings, and
  descending order is the converse. When no two filtered comments share a value of the key,
  the descending view is the ascending view reversed.
\<close>

theorem sorting_spec:
  "mset (sorted_view C s) = mset (filtered C s)
   \<and> filter (\<lambda>c. getField c k = v) (sorted_view C (s\<lparr>sortKey := Some k, sortOrder := ord\<rparr>))
     = filter (\<lambda>c. getField c k = v) (filtered C s)
   \<and> sorted (map postId (sorted_view C (s\<lparr>sortKey := Some ''postId'', sortOrder := ''asc''\<rparr>)))
   \<and> sorted (map name (sorted_view C (s\<lparr>sortKey := Some ''name'', sortOrder := ''asc''\<rparr>)))
   \<and> sorted (map email (sorted_view C (s\<lparr>sortKey := Some ''email'', sortOrder := ''asc''\<rparr>)))
   \<and> sorted (rev (map postId (sorted_view C (s\<lparr>sortKey := Some ''postId'', sortOrder := ''desc''\<rparr>))))
   \<and> sorted (rev (map name (sorted_view C (s\<lparr>sortKey := Some ''name'', sortOrder := ''desc''\<rparr>))))
   \<and> sorted (rev (map email (sorted_view C (s\<lparr>sortKey := Some ''email'', sortOrder := ''desc''\<rparr>))))
   \<and> (distinct (map postId (filtered C s)) \<longrightarrow>
        sorted_view C (s\<lparr>sortKey := Some ''postId'', sortOrder := ''desc''\<rparr>)
        = rev (sorted_view C (s\<lparr>sortKey := Some ''postId'', sortOrder := ''asc''\<rparr>)))
   \<and> (distinct (map name (filtered C s)) \<longrightarrow>
        sorted_view C (s\<lparr>sortKey := Some ''name'', sortOrder := ''desc''\<rparr>)
        = rev (sorted_view C (s\<lparr>sortKey := Some ''name'', sortOrder := ''asc''\<rparr>)))
   \<and> (distinct (map email (filtered C s)) \<longrightarrow>
        sorted_view C (s\<lparr>sortKey := Some ''email'', sortOrder := ''desc''\<rparr>)
        = rev (sorted_view C (s\<lparr>sortKey := Some ''email'', sortOrder := ''asc''\<rparr>)))"
proof (intro conjI allI impI)
  show "mset (sorted_view C s) = mset (filtered C s)"
    by (rule mset_sorted_view)
next
  show "filter (\<lambda>c. getField c k = v) (sorted_view C (s\<lparr>sortKey := Some k, sortOrder := ord\<rparr>))
     = filter (\<lambda>c. getField c k = v) (filtered C s)"
    using sorted_view_stable [of "s\<lparr>sortKey := Some k, sortOrder := ord\<rparr>" k v C] by simp
qed (simp_all add: sorted_view_asc sorted_view_desc sorted_view_desc_rev
       compareFn_postId compareFn_name compareFn_email)

subsection \<open>The sort cycle and the unsorted view\<close>

text \<open>
  Claim C6. \<^verbatim>\<open>handleSort\<close> with a key other than the current one selects that key in
  ascending order; with the current key it goes from ascending to descending, and from
  descending to no order and no key. Every call sets the page to 1. Three calls with
  \<^verbatim>\<open>"name"\<close> from the state without key and order end without key and order.
\<close>

theorem handleSort_cycle:
  "(k' \<noteq> Some k \<longrightarrow>
      handleSort k (s\<lparr>sortKey := k'\<rparr>) = s\<lparr>sortKey := Some k, sortOrder := ''asc'', page := 1\<rparr>)
   \<and> handleSort k (s\<lparr>sortKey := Some k, sortOrder := ''asc''\<rparr>)
      = s\<lparr>sortKey := Some k, sortOrder := ''desc'', page := 1\<rparr>
   \<and> handleSort k (s\<lparr>sortKey := Some k, sortOrder := ''desc''\<rparr>)
      = s\<lparr>sortKey := None, sortOrder := ''none'', page := 1\<rparr>
   \<and> page (handleSort k s) = 1
   \<and> handleSort ''name'' (handleSort ''name'' (handleSort ''name''
        (s\<lparr>sortKey := None, sortOrder := ''none''\<rparr>)))
      = s\<lparr>sortKey := None, sortOrder := ''none'', page := 1\<rparr>"
  by (simp add: handleSort_def setPage_def)

text \<open>A click on the name column while the comments are sorted by email.\<close>

theorem handleSort_cycle_witness:
  "Some ''email'' \<noteq> Some ''name''
   \<and> handleSort ''name'' (initial\<lparr>sortKey := Some ''email''\<rparr>)
     = initial\<lparr>sortKey := Some ''name'', sortOrder := ''asc'', page := 1\<rparr>"
  using handleSort_cycle [of "Some ''email''" "''name''" initial] by simp

text \<open>
  Claim C10. When the sort order is \<^verbatim>\<open>"none"\<close> the sorted view is the filtered view,
  whatever the sort key is.
\<close>

theorem unsorted_when_order_none: "sortOrder s = ''none'' \<Longrightarrow> sorted_view C s = filtered C s"
  by (simp add: sorted_view_def split: option.splits)

text \<open>
  The state that hydration builds from a store holding only the sort key \<^verbatim>\<open>"name"\<close>:
  a key without an order.
\<close>

theorem unsorted_when_order_none_witness:
  "sortOrder (initial\<lparr>sortKey := Some ''name''\<rparr>) = ''none''
   \<and> sorted_view sample (initial\<lparr>sortKey := Some ''name''\<rparr>)
     = filtered sample (initial\<lparr>sortKey := Some ''name''\<rparr>)"
proof -
  have h: "sortOrder (initial\<lparr>sortKey := Some ''name''\<rparr>) = ''none''"
    by (simp add: initial_def)
  show ?thesis
    using h unsorted_when_order_none [OF h, of sample] by simp
qed

subsection \<open>Examples of sorting\<close>

lemma filtered_no_search: "search s = '''' \<Longrightarrow> filtered C s = C"
  by (simp add: filtered_def toLowerCase_def matches_def includes_empty)

text \<open>
  The three sample comments differ in every field; sorted by descending \<^verbatim>\<open>postId\<close>,
  \<^verbatim>\<open>name\<close> or \<^verbatim>\<open>email\<close> they come in the reverse of the ascending order.
\<close>

theorem sorting_spec_witness:
  "distinct (map postId (filtered sample initial))
   \<and> distinct (map name (filtered sample initial))
   \<and> distinct (map email (filtered sample initial))
   \<and> filter (\<lambda>c. getField c ''postId'' = Num 2)
         (sorted_view sample (initial\<lparr>sortKey := Some ''postId'', sortOrder := ''desc''\<rparr>))
     = filter (\<lambda>c. getField c ''postId'' = Num 2) (filtered sample initial)
   \<and> sorted_view sample (initial\<lparr>sortKey := Some ''postId'', sortOrder := ''desc''\<rparr>)
     = rev (sorted_view sample (initial\<lparr>sortKey := Some ''postId'', sortOrder := ''asc''\<rparr>))
   \<and> sorted_view sample (initial\<lparr>sortKey := Some ''name'', sortOrder := ''desc''\<rparr>)
     = rev (sorted_view sample (initial\<lparr>sortKey := Some ''name'', sortOrder := ''asc''\<rparr>))
   \<and> sorted_view sample (initial\<lparr>sortKey := Some ''email'', sortOrder := ''desc''\<rparr>)
     = rev (sorted_view sample (initial\<lparr>sortKey := Some ''email'', sortOrder := ''asc''\<rparr>))"
proof -
  have f: "filtered sample initial = sample"
    by (simp add: filtered_no_search initial_def)
  have d: "distinct (map postId (filtered sample initial))"
    "distinct (map name (filtered sample initial))"
    "distinct (map email (filtered sample initial))"
    unfolding f by (simp_all add: sample_def)
  show ?thesis
    using d sorting_spec [where C = sample and s = initial and k = "''postId''"
        and v = "Num 2" and ord = "''desc''"]
    by blast
qed

subsection \<open>The number of pages\<close>

lemma length_sorted_view: "length (sorted_view C s) = length (filtered C s)"
  using mset_sorted_view [of C s] by (metis size_mset)





subsection \<open>Facts about numbers and strings\<close>

lemma digits_small: "n < 10 \<Longrightarrow> digits n = [digitChar n]"
  using digits.simps [of n] by simp

lemma digits_big: "\<not> n < 10 \<Longrightarrow> digits n = digits (n div 10) @ [digitChar (n mod 10)]"
  using digits.simps [of n] by simp

lemma digitChar_decimal: "d < 10 \<Longrightarrow> digitChar d \<in> set ''0123456789''"
proof -
  assume "d < 10"
  then have "d \<in> {0, 1, 2, 3, 4, 5, 6, 7, 8, 9}" by auto
  then show ?thesis
    by (auto simp: digitChar_def)
qed

lemma digitValue_digitChar: "d < 10 \<Longrightarrow> digitValue (digitChar d) = Some d"
proof -
  assume "d < 10"
  then have "d \<in> {0, 1, 2, 3, 4, 5, 6, 7, 8, 9}" by auto
  then show ?thesis
    by (auto simp: digitValue_def digitChar_def)
qed

lemma digits_nonempty: "digits n \<noteq> []"
  by (cases "n < 10") (simp_all add: digits_small digits_big)

lemma digits_decimal: "set (digits n) \<subseteq> set ''0123456789''"
proof (induction n rule: digits.induct)
  case (1 n)
  show ?case
  proof (cases "n < 10")
    case True
    then show ?thesis
      using digitChar_decimal [of n] by (simp add: digits_small)
  next
    case False
    then have "set (digits (n div 10)) \<subseteq> set ''0123456789''"
      using "1" by simp
    moreover have "digitChar (n mod 10) \<in> set ''0123456789''"
      by (rule digitChar_decimal) simp
    ultimately show ?thesis
      using False by (simp add: digits_big)
  qed
qed

lemma natOf_snoc:
  "natOf base (s @ [c]) = base * natOf base s + (case digitValue c of None \<Rightarrow> 0 | Some d \<Rightarrow> d)"
  by (simp add: natOf_def)

lemma natOf_digits: "natOf 10 (digits n) = n"
proof (induction n rule: digits.induct)
  case (1 n)
  show ?case
  proof (cases "n < 10")
    case True
    then show ?thesis
      by (simp add: digits_small natOf_def digitValue_digitChar)
  next
    case False
    then have "natOf 10 (digits (n div 10)) = n div 10"
      using "1" by simp
    moreover have "digits n = digits (n div 10) @ [digitChar (n mod 10)]"
      using False by (rule digits_big)
    ultimately show ?thesis
      by (simp add: natOf_snoc digitValue_digitChar)
  qed
qed

lemma decimal_cases:
  assumes "c \<in> set ''0123456789''"
  shows "c = CHR ''0'' \<or> c = CHR ''1'' \<or> c = CHR ''2'' \<or> c = CHR ''3'' \<or> c = CHR ''4''
    \<or> c = CHR ''5'' \<or> c = CHR ''6'' \<or> c = CHR ''7'' \<or> c = CHR ''8'' \<or> c = CHR ''9''"
  using assms by simp

lemma decimal_isDigit:
  assumes "c \<in> set ''0123456789''"
  shows "isDigit 10 c"
  using decimal_cases [OF assms] by (elim disjE) (simp_all add: isDigit_def digitValue_def)

lemma decimal_not_other:
  assumes "c \<in> set ''0123456789''"
  shows "c \<noteq> CHR ''-''" and "c \<noteq> CHR ''+''" and "c \<noteq> CHR ''I''"
    and "c \<noteq> CHR ''x''" and "c \<noteq> CHR ''X''" and "c \<noteq> CHR ''o''" and "c \<noteq> CHR ''O''"
    and "c \<noteq> CHR ''b''" and "c \<noteq> CHR ''B''" and "c \<noteq> CHR ''.''" and "c \<noteq> CHR ''e''"
    and "c \<noteq> CHR ''E''"
  using decimal_cases [OF assms] by auto

lemma decimal_not_space:
  assumes "c \<in> set ''0123456789''"
  shows "\<not> isSpace c"
  using decimal_cases [OF assms] by (elim disjE) (simp_all add: isSpace_def)

lemma trim_id:
  assumes "s \<noteq> []" and "\<not> isSpace (hd s)" and "\<not> isSpace (last s)"
  shows "trim s = s"
proof -
  have "dropWhile isSpace s = s"
    using assms(1,2) by (cases s) auto
  moreover have "dropWhile isSpace (rev s) = rev s"
    using assms(1,3) by (cases "rev s") (auto simp: hd_rev)
  ultimately show ?thesis
    by (simp add: trim_def)
qed

lemma bitlen_zero: "bitlen 0 = 0"
  by (subst bitlen.simps) simp

lemma bitlen_step: "0 < n \<Longrightarrow> bitlen n = Suc (bitlen (n div 2))"
  by (subst bitlen.simps) simp

lemma bitlen_one: "bitlen (Suc 0) = Suc 0"
  by (simp add: bitlen_step bitlen_zero)

lemma bitlen_pos: "0 < n \<Longrightarrow> 0 < bitlen n"
  by (simp add: bitlen_step)

lemma bitlen_bounds: "0 < n \<Longrightarrow> 2 ^ (bitlen n - 1) \<le> n \<and> n < 2 ^ bitlen n"
proof (induction n rule: bitlen.induct)
  case (1 n)
  show ?case
  proof (cases "n div 2 = 0")
    case True
    with "1.prems" have n: "n = Suc 0" by presburger
    show ?thesis
      unfolding n by (simp add: bitlen_one)
  next
    case False
    define m where "m = n div 2"
    define k where "k = bitlen m"
    have ih: "2 ^ (k - 1) \<le> m" "m < 2 ^ k"
      using "1" False by (simp_all add: m_def k_def)
    have b: "bitlen n = Suc k"
      unfolding k_def m_def using "1.prems" by (rule bitlen_step)
    have "0 < k"
      unfolding k_def using False by (simp add: bitlen_pos m_def)
    then have p: "(2::nat) ^ k = 2 * 2 ^ (k - 1)"
      by (cases k) simp_all
    have lo: "2 * m \<le> n" and hi: "n < 2 * m + 2"
      unfolding m_def by presburger+
    have "2 ^ k \<le> n"
      using p ih(1) lo by linarith
    moreover have "n < 2 * 2 ^ k"
      using ih(2) hi by linarith
    ultimately show ?thesis
      unfolding b by simp
  qed
qed

lemma roundHalfEven_one: "roundHalfEven a (Suc 0) = a"
  by (simp add: roundHalfEven_def)

lemma exponent_nat:
  assumes n: "0 < n"
  shows "exponent n (Suc 0) = int (bitlen n) - 1"
proof -
  have lo: "2 ^ (bitlen n - 1) \<le> n"
    using bitlen_bounds [OF n] by simp
  have pos: "0 < bitlen n"
    using n by (rule bitlen_pos)
  then have "nat (int (bitlen n) - 1) = bitlen n - 1"
    by simp
  with lo pos show ?thesis
    by (simp add: exponent_def bitlen_one)
qed

lemma roundMag_exact:
  assumes "n \<le> 9007199254740992"
  shows "roundMag n (Suc 0) = Some (of_nat n)"
proof (cases "n = 0")
  case True
  then show ?thesis by (simp add: roundMag_def)
next
  case False
  then have n: "0 < n" by simp
  have lo: "2 ^ (bitlen n - 1) \<le> n"
    using bitlen_bounds [OF n] by simp
  have "(of_nat n :: rat) \<le> of_nat 9007199254740992"
    using assms by (simp only: of_nat_le_iff)
  then have small: "\<not> 2 ^ 1024 \<le> (of_nat n :: rat)"
    by simp
  have "bitlen n - 1 \<le> 53"
  proof (rule ccontr)
    assume "\<not> bitlen n - 1 \<le> 53"
    then have "54 \<le> bitlen n - 1" by simp
    then have "(2::nat) ^ 54 \<le> 2 ^ (bitlen n - 1)"
      by (rule power_increasing) simp
    with lo assms show False by simp
  qed
  then have len: "bitlen n \<le> 54" by simp
  have e: "max (exponent n (Suc 0)) (- 1022) = int (bitlen n) - 1"
    using exponent_nat [OF n] by simp
  show ?thesis
  proof (cases "bitlen n = 54")
    case True
    with lo assms have v: "n = 9007199254740992" by simp
    have "roundHalfEven 9007199254740992 2 = 4503599627370496"
      by (simp add: roundHalfEven_def)
    then show ?thesis
      using False True small unfolding roundMag_def e Let_def by (simp add: v)
  next
    case b: False
    with len have s: "0 \<le> 52 - (int (bitlen n) - 1)" by simp
    have "(of_nat (n * 2 ^ k) :: rat) / 2 ^ k = of_nat n" for k
      by simp
    then show ?thesis
      using False s small unfolding roundMag_def e Let_def
      by (simp only: roundHalfEven_one if_True if_False)
  qed
qed

lemma toNumber_exact:
  assumes "n \<le> 9007199254740992"
  shows "toNumber neg n (Suc 0) =
    (if neg then (if n = 0 then NegZero else Fin (- of_nat n)) else Fin (of_nat n))"
  by (simp add: toNumber_def roundMag_exact [OF assms])

lemma nonDecimal_decimal:
  assumes "set t \<subseteq> set ''0123456789''"
  shows "nonDecimal t = None"
proof (cases t)
  case Nil
  then show ?thesis by (simp add: nonDecimal_def)
next
  case (Cons c0 r)
  show ?thesis
  proof (cases r)
    case Nil
    with Cons show ?thesis by (simp add: nonDecimal_def)
  next
    case (Cons c1 ds)
    with \<open>t = c0 # r\<close> assms have "c1 \<in> set ''0123456789''"
      by auto
    from decimal_not_other [OF this] show ?thesis
      unfolding \<open>t = c0 # r\<close> Cons by (simp add: nonDecimal_def)
  qed
qed

lemma nonDecimal_minus: "nonDecimal (CHR ''-'' # t) = None"
  by (cases t) (simp_all add: nonDecimal_def Let_def)

lemma unsignedDecimal_digits:
  assumes u: "u \<noteq> []" and d: "set u \<subseteq> set ''0123456789''"
  shows "unsignedDecimal neg u = toNumber neg (natOf 10 u) (Suc 0)"
proof -
  have all: "\<forall>c\<in>set u. isDigit 10 c"
    using d decimal_isDigit by blast
  then have ip: "takeWhile (isDigit 10) u = u" and r1: "dropWhile (isDigit 10) u = []"
    by simp_all
  have "CHR ''I'' \<notin> set u"
    using d decimal_not_other(3) by blast
  then have inf: "u \<noteq> ''Infinity''"
    by auto
  show ?thesis
    unfolding unsignedDecimal_def ip r1 Let_def using u inf by simp
qed

lemma String_nonempty: "String n \<noteq> []"
  by (simp add: String_def digits_nonempty)

lemma hd_digits: "hd (digits m) \<in> set ''0123456789''"
  using digits_decimal [of m] digits_nonempty [of m] hd_in_set by blast

lemma last_digits: "last (digits m) \<in> set ''0123456789''"
  using digits_decimal [of m] digits_nonempty [of m] last_in_set by blast

lemma trim_String: "trim (String n) = String n"
proof (rule trim_id)
  show "String n \<noteq> []" by (rule String_nonempty)
  show "\<not> isSpace (hd (String n))"
    using decimal_not_space [OF hd_digits] by (simp add: String_def isSpace_def)
  show "\<not> isSpace (last (String n))"
    using decimal_not_space [OF last_digits] by (simp add: String_def digits_nonempty)
qed

lemma Number_String:
  assumes "\<bar>n\<bar> \<le> 9007199254740992"
  shows "Number (String n) = ofInt n"
proof (cases "n < 0")
  case True
  define m where "m = nat (- n)"
  have m: "m \<le> 9007199254740992" "m \<noteq> 0" "of_nat m = (- of_int n :: rat)"
    using True assms by (simp_all add: m_def)
  have s: "String n = CHR ''-'' # digits m"
    using True by (simp add: String_def m_def)
  have "unsignedDecimal True (digits m) = toNumber True m (Suc 0)"
    using unsignedDecimal_digits [OF digits_nonempty digits_decimal, of True m]
    by (simp add: natOf_digits)
  also have "\<dots> = Fin (of_int n)"
    using m by (simp add: toNumber_exact)
  finally show ?thesis
    unfolding Number_def trim_String Let_def unfolding s
    by (simp add: nonDecimal_minus ofInt_def)
next
  case False
  define m where "m = nat n"
  have m: "m \<le> 9007199254740992" "of_nat m = (of_int n :: rat)"
    using False assms by (simp_all add: m_def)
  have s: "String n = digits m"
    using False by (simp add: String_def m_def)
  have h: "hd (digits m) \<noteq> CHR ''-''" "hd (digits m) \<noteq> CHR ''+''"
    using decimal_not_other [OF hd_digits] by simp_all
  have "unsignedDecimal False (digits m) = toNumber False m (Suc 0)"
    using unsignedDecimal_digits [OF digits_nonempty digits_decimal, of False m]
    by (simp add: natOf_digits)
  also have "\<dots> = Fin (of_int n)"
    using m by (simp add: toNumber_exact)
  finally show ?thesis
    unfolding Number_def trim_String Let_def unfolding s
    using h by (simp add: nonDecimal_decimal [OF digits_decimal] digits_nonempty ofInt_def)
qed

lemma toInt_ofInt: "\<bar>n\<bar> \<le> 9007199254740992 \<Longrightarrow> toInt (ofInt n) = Some n"
proof -
  assume a: "\<bar>n\<bar> \<le> 9007199254740992"
  have "\<bar>(of_int n :: rat)\<bar> = of_int \<bar>n\<bar>"
    by simp
  also have "\<dots> \<le> of_int 9007199254740992"
    using a by (simp only: of_int_le_iff)
  finally show ?thesis
    by (simp add: toInt_def ofInt_def)
qed

lemmas Number_eval =
  Number_def trim_def isSpace_def nonDecimal_def unsignedDecimal_def signedInteger_def
  isDigit_def digitValue_def natOf_def toNumber_def roundMag_def exponent_def bitlen.simps
  roundHalfEven_def Let_def

text \<open>Values of \<^verbatim>\<open>Number\<close>, computed from the definition.\<close>

lemma Number_examples:
  "Number ''37'' = ofInt 37"
  "Number ''abc'' = NaN"
  "Number ''12px'' = NaN"
  "Number ''1e3'' = ofInt 1000"
  "Number '' 7'' = ofInt 7"
  "Number ''  '' = ofInt 0"
  "Number ''0x10'' = ofInt 16"
  "Number ''+5'' = ofInt 5"
  "Number ''-5'' = ofInt (- 5)"
  "Number ''1.0'' = ofInt 1"
  "Number ''1.5'' = Fin (3 / 2)"
  "Number ''0.1'' = Fin (3602879701896397 / 36028797018963968)"
  "Number ''-0'' = NegZero"
  "Number ''Infinity'' = PosInf"
  "Number ''9007199254740993'' = ofInt 9007199254740992"
  "Number ''9007199254740995'' = ofInt 9007199254740996"
  by (simp_all add: Number_eval ofInt_def)

lemma Number_extremes:
  "Number ''1e309'' = PosInf"
  "Number ''5e-324'' = Fin (1 / 2 ^ 1074)"
  by (simp_all add: Number_eval)

subsection \<open>Hydration\<close>

lemma hydrate_initial:
  "hydrate st initial =
     \<lparr>search = (case st ''search'' of None \<Rightarrow> '''' | Some v \<Rightarrow> v),
      page = (case st ''page'' of None \<Rightarrow> ofInt 1 | Some v \<Rightarrow> if v = '''' then ofInt 1 else Number v),
      pageSize = (case st ''pageSize'' of None \<Rightarrow> ofInt 10
                  | Some v \<Rightarrow> if v = '''' then ofInt 10 else Number v),
      sortKey = (case st ''sortKey'' of None \<Rightarrow> None | Some v \<Rightarrow> if v = '''' then None else Some v),
      sortOrder = (case st ''sortOrder'' of None \<Rightarrow> ''none''
                   | Some v \<Rightarrow> if v = '''' then ''none'' else v)\<rparr>"
  by (simp add: hydrate_def initial_def truthy_def split: option.splits)

text \<open>
  Claim C1, as the code has it. Hydration takes every field on its own: each field of the
  hydrated state is given by the stored value of its own key alone. A value that is missing
  or is the empty string leaves the field at its initial value (\<^verbatim>\<open>""\<close>, 1, 10, no key,
  \<^verbatim>\<open>"none"\<close>). Every other stored value is applied without a check: the search text, the
  sort key and the sort order as the stored string, the page and the page size as
  \<^verbatim>\<open>Number\<close> of it, whatever number that is. \<^verbatim>\<open>Number\<close> reads back every integer
  from \<open>-2^53\<close> to \<open>2^53\<close> that \<^verbatim>\<open>String\<close> wrote, whether or not it is one of the four
  page sizes: \<^verbatim>\<open>"37"\<close> is 37. \<^verbatim>\<open>"1e3"\<close> is 1000, \<^verbatim>\<open>" 7"\<close> is 7, two spaces are
  0, \<^verbatim>\<open>"0x10"\<close> is 16, \<^verbatim>\<open>"1.5"\<close> and \<^verbatim>\<open>"0.1"\<close> are fractions, \<^verbatim>\<open>"-0"\<close> is
  the negative zero, \<^verbatim>\<open>"Infinity"\<close> and \<^verbatim>\<open>"1e309"\<close> are infinite, \<^verbatim>\<open>"5e-324"\<close> is
  the least positive value, \<^verbatim>\<open>"9007199254740993"\<close> and \<^verbatim>\<open>"9007199254740995"\<close> are
  rounded to the even neighbour, and \<^verbatim>\<open>"abc"\<close> and \<^verbatim>\<open>"12px"\<close> are \<^verbatim>\<open>NaN\<close>.
\<close>

theorem hydrate_spec:
  "search (hydrate st initial) = (case st ''search'' of None \<Rightarrow> '''' | Some v \<Rightarrow> v)
   \<and> page (hydrate st initial)
       = (case st ''page'' of None \<Rightarrow> ofInt 1 | Some v \<Rightarrow> if v = '''' then ofInt 1 else Number v)
   \<and> pageSize (hydrate st initial)
       = (case st ''pageSize'' of None \<Rightarrow> ofInt 10
          | Some v \<Rightarrow> if v = '''' then ofInt 10 else Number v)
   \<and> sortKey (hydrate st initial)
       = (case st ''sortKey'' of None \<Rightarrow> None | Some v \<Rightarrow> if v = '''' then None else Some v)
   \<and> sortOrder (hydrate st initial)
       = (case st ''sortOrder'' of None \<Rightarrow> ''none'' | Some v \<Rightarrow> if v = '''' then ''none'' else v)
   \<and> (\<bar>n\<bar> \<le> 9007199254740992 \<longrightarrow> Number (String n) = ofInt n)
   \<and> Number ''37'' = ofInt 37
   \<and> Number ''abc'' = NaN
   \<and> Number ''12px'' = NaN
   \<and> Number ''1e3'' = ofInt 1000
   \<and> Number '' 7'' = ofInt 7
   \<and> Number ''  '' = ofInt 0
   \<and> Number ''0x10'' = ofInt 16
   \<and> Number ''1.5'' = Fin (3 / 2)
   \<and> Number ''0.1'' = Fin (3602879701896397 / 36028797018963968)
   \<and> Number ''-0'' = NegZero
   \<and> Number ''Infinity'' = PosInf
   \<and> Number ''1e309'' = PosInf
   \<and> Number ''5e-324'' = Fin (1 / 2 ^ 1074)
   \<and> Number ''9007199254740993'' = ofInt 9007199254740992
   \<and> Number ''9007199254740995'' = ofInt 9007199254740996"
  unfolding hydrate_initial by (simp add: Number_String Number_examples Number_extremes)

text \<open>
  Claim C1 as stated fails: a stored page \<^verbatim>\<open>"abc"\<close> becomes the page \<^verbatim>\<open>NaN\<close> and not
  1, a stored page size \<^verbatim>\<open>"37"\<close> becomes the page size 37 and not 10, and the sort key
  \<^verbatim>\<open>"bogus"\<close> and the sort order \<^verbatim>\<open>"up"\<close> are taken as they are.
\<close>

theorem hydrate_counterexample:
  "hydrate (Map.empty(''page'' \<mapsto> ''abc'', ''pageSize'' \<mapsto> ''37'', ''sortKey'' \<mapsto> ''bogus'',
                      ''sortOrder'' \<mapsto> ''up'')) initial
     = \<lparr>search = '''', page = NaN, pageSize = ofInt 37, sortKey = Some ''bogus'',
        sortOrder = ''up''\<rparr>
   \<and> NaN \<noteq> ofInt 1 \<and> ofInt 37 \<noteq> ofInt 10 \<and> Some ''bogus'' \<noteq> None \<and> ''up'' \<noteq> ''none''"
  unfolding hydrate_initial by (simp add: Number_examples ofInt_def)

text \<open>
  A store with the page \<^verbatim>\<open>"abc"\<close> and the sort key \<^verbatim>\<open>"name"\<close>: the page is \<^verbatim>\<open>NaN\<close>,
  the page size stays 10 and the key is applied. The integer 37 is written as \<^verbatim>\<open>"37"\<close>
  and read back as 37.
\<close>

theorem hydrate_spec_witness:
  "page (hydrate (Map.empty(''page'' \<mapsto> ''abc'', ''sortKey'' \<mapsto> ''name'')) initial) = NaN
   \<and> pageSize (hydrate (Map.empty(''page'' \<mapsto> ''abc'', ''sortKey'' \<mapsto> ''name'')) initial) = ofInt 10
   \<and> sortKey (hydrate (Map.empty(''page'' \<mapsto> ''abc'', ''sortKey'' \<mapsto> ''name'')) initial)
       = Some ''name''
   \<and> \<bar>37 :: int\<bar> \<le> 9007199254740992
   \<and> String 37 = ''37''
   \<and> Number (String 37) = ofInt 37"
proof -
  have s: "String 37 = ''37''"
    by (simp add: String_def digits_big digits_small digitChar_def)
  show ?thesis
    using hydrate_spec [of "Map.empty(''page'' \<mapsto> ''abc'', ''sortKey'' \<mapsto> ''name'')" 37]
    by (simp add: s)
qed

subsection \<open>Pages\<close>

lemma filtered_page [simp]: "filtered C (s\<lparr>page := p\<rparr>) = filtered C s"
  by (simp add: filtered_def)

lemma sorted_view_page [simp]: "sorted_view C (s\<lparr>page := p\<rparr>) = sorted_view C s"
  by (simp add: sorted_view_def split: option.splits)














subsection \<open>Persisting and hydrating\<close>

lemma pager_fields:
  "pager C s en tg = Some s' \<Longrightarrow>
   search s' = search s \<and> pageSize s' = pageSize s \<and> sortKey s' = sortKey s \<and> sortOrder s' = sortOrder s"
  by (auto simp: pager_def setPage_def split: option.splits if_splits)

lemma persist_lookup:
  "persist s st ''search'' = Some (search s)"
  "persist s st ''page'' = Some (String (page s))"
  "persist s st ''pageSize'' = Some (String (pageSize s))"
  "persist s st ''sortKey'' = Some (case sortKey s of None \<Rightarrow> '''' | Some k \<Rightarrow> k)"
  "persist s st ''sortOrder'' = Some (sortOrder s)"
  by (simp_all add: persist_def)

lemma hydrate_persist_fields:
  assumes "restorable s"
  shows "hydrate (persist s st) initial =
    \<lparr>search = search s, page = Number (String (page s)),
     pageSize = Number (String (pageSize s)), sortKey = sortKey s, sortOrder = sortOrder s\<rparr>"
proof -
  have k': "(if (case sortKey s of None \<Rightarrow> '''' | Some k \<Rightarrow> k) = '''' then None
             else Some (case sortKey s of None \<Rightarrow> '''' | Some k \<Rightarrow> k)) = sortKey s"
    using assms by (cases "sortKey s") (auto simp: restorable_def)
  have o: "(if sortOrder s = '''' then ''none'' else sortOrder s) = sortOrder s"
    using assms by (simp add: restorable_def)
  show ?thesis
    unfolding hydrate_initial persist_lookup
    by (simp add: String_nonempty k' o)
qed

lemma hydrate_persist:
  assumes "restorable s" and "exact s"
  shows "hydrate (persist s st) initial =
    \<lparr>search = search s, page = ofInt (page s), pageSize = ofInt (pageSize s),
     sortKey = sortKey s, sortOrder = sortOrder s\<rparr>"
  using assms(2) unfolding hydrate_persist_fields [OF assms(1)]
  by (simp add: exact_def Number_String)

lemma integral_hydrate_persist:
  assumes "restorable s" and "exact s"
  shows "integral (hydrate (persist s st) initial) = Some s"
  using assms(2) unfolding hydrate_persist [OF assms]
  by (simp add: integral_def exact_def toInt_ofInt)


lemma integral_fields:
  assumes "integral h = Some s"
  shows "search s = search h" and "sortKey s = sortKey h" and "sortOrder s = sortOrder h"
    and "toInt (page h) = Some (page s)" and "toInt (pageSize h) = Some (pageSize s)"
  using assms by (auto simp: integral_def split: option.splits)



lemma pageSize_choice:
  "sz \<in> set [10, 25, 50, 100] \<Longrightarrow> toInt (Number (String sz)) = Some sz"
  by (auto simp: Number_String toInt_ofInt)

lemma step_pageSize:
  "step C (PageSizeChange sz) s = Some s' \<Longrightarrow>
   sz \<in> set [10, 25, 50, 100] \<and> s' = setPage 1 (s\<lparr>pageSize := sz\<rparr>)"
  by (cases "sz \<in> set [10, 25, 50, 100]") (simp_all add: pageSize_choice del: set_simps)




lemma pageNum_in_range:
  assumes "1 < tot" and "0 \<le> i" and "i < min 5 tot"
  shows "1 \<le> pageNum tot p i \<and> pageNum tot p i \<le> tot"
  using assms by (auto simp: pageNum_def)








subsection \<open>The coupling of sort key and sort order\<close>

lemma coupled_handleSort: "coupled (handleSort k s)"
  by (simp add: coupled_def handleSort_def setPage_def)

lemma coupled_handleReset: "coupled (handleReset s)"
  by (simp add: coupled_def handleReset_def)

lemma step_coupled: "step C e s = Some s' \<Longrightarrow> coupled s \<Longrightarrow> coupled s'"
proof (cases e)
  case (SortClick k)
  assume "step C e s = Some s'"
  with SortClick show ?thesis by (auto simp: coupled_handleSort split: if_splits)
next
  case Reset
  assume "step C e s = Some s'"
  with Reset show ?thesis by (auto simp: coupled_handleReset)
qed (auto simp: coupled_def setPage_def dest!: pager_fields step_pageSize split: if_splits)

lemma run_coupled: "run C es s = Some s' \<Longrightarrow> coupled s \<Longrightarrow> coupled s'"
proof (induction es arbitrary: s)
  case Nil
  then show ?case by simp
next
  case (Cons e es)
  then show ?case by (auto split: option.splits dest: step_coupled)
qed

lemma coupled_hydrate:
  "coupled (hydrate st initial)
     = (truthy (st ''sortKey'') = (truthy (st ''sortOrder'') \<and> st ''sortOrder'' \<noteq> Some ''none''))"
  unfolding hydrate_initial
  by (auto simp: coupled_def truthy_def split: option.splits if_splits)

lemma coupled_integral: "integral h = Some s \<Longrightarrow> coupled s = coupled h"
  by (simp add: coupled_def integral_fields)

text \<open>
  Claim C4, as the code has it. The initial state is coupled. \<^verbatim>\<open>handleSort\<close> and
  \<^verbatim>\<open>handleReset\<close> end in a coupled state from any state, and every sequence of user
  events keeps a coupled state coupled. Hydration copies the stored key and the stored
  order independently of each other: the state it builds is coupled exactly when the store
  has a non-empty key together with a non-empty order other than \<^verbatim>\<open>"none"\<close>, or neither.
  The store that \<^verbatim>\<open>persist\<close> writes for a coupled state is hydrated to a coupled state
  with the same search text, key and order and with \<^verbatim>\<open>Number\<close> of the decimal forms of
  the page and the page size; when these two are integers from \<open>-2^53\<close> to \<open>2^53\<close> that
  is the state itself.
\<close>

theorem coupling_spec:
  "coupled initial
   \<and> coupled (handleSort k s)
   \<and> coupled (handleReset s)
   \<and> (coupled s \<and> run C es s = Some s' \<longrightarrow> coupled s')
   \<and> coupled (hydrate st initial)
       = (truthy (st ''sortKey'') = (truthy (st ''sortOrder'') \<and> st ''sortOrder'' \<noteq> Some ''none''))
   \<and> (integral (hydrate st initial) = Some h \<longrightarrow>
        coupled h = (truthy (st ''sortKey'')
                     = (truthy (st ''sortOrder'') \<and> st ''sortOrder'' \<noteq> Some ''none'')))
   \<and> (coupled s \<and> restorable s \<longrightarrow>
        hydrate (persist s st) initial
          = \<lparr>search = search s, page = Number (String (page s)),
             pageSize = Number (String (pageSize s)), sortKey = sortKey s,
             sortOrder = sortOrder s\<rparr>
        \<and> coupled (hydrate (persist s st) initial))
   \<and> (coupled s \<and> restorable s \<and> exact s \<longrightarrow>
        integral (hydrate (persist s st) initial) = Some s)"
proof (intro conjI impI)
  show "coupled initial" by (simp add: coupled_def initial_def)
  show "coupled (handleSort k s)" by (rule coupled_handleSort)
  show "coupled (handleReset s)" by (rule coupled_handleReset)
  show "coupled s'" if "coupled s \<and> run C es s = Some s'"
    using that run_coupled by blast
  show "coupled (hydrate st initial)
       = (truthy (st ''sortKey'') = (truthy (st ''sortOrder'') \<and> st ''sortOrder'' \<noteq> Some ''none''))"
    by (rule coupled_hydrate)
  show "coupled h = (truthy (st ''sortKey'')
                     = (truthy (st ''sortOrder'') \<and> st ''sortOrder'' \<noteq> Some ''none''))"
    if "integral (hydrate st initial) = Some h"
    using coupled_integral [OF that] by (simp add: coupled_hydrate)
  show "hydrate (persist s st) initial
          = \<lparr>search = search s, page = Number (String (page s)),
             pageSize = Number (String (pageSize s)), sortKey = sortKey s,
             sortOrder = sortOrder s\<rparr>"
    if "coupled s \<and> restorable s"
    using that hydrate_persist_fields by blast
  show "coupled (hydrate (persist s st) initial)" if "coupled s \<and> restorable s"
    using that by (simp add: hydrate_persist_fields coupled_def)
  show "integral (hydrate (persist s st) initial) = Some s"
    if "coupled s \<and> restorable s \<and> exact s"
    using that integral_hydrate_persist by blast
qed

text \<open>
  Claim C4 as stated fails: from a store that holds the sort key \<^verbatim>\<open>"name"\<close> and no sort
  order, the session is in a state with a key and without an order.
\<close>

theorem coupling_counterexample:
  "session (Map.empty(''sortKey'' \<mapsto> ''name'')) [] [] = Some (initial\<lparr>sortKey := Some ''name''\<rparr>)
   \<and> \<not> coupled (initial\<lparr>sortKey := Some ''name''\<rparr>)"
  unfolding session_def hydrate_initial
  by (simp add: integral_def toInt_ofInt initial_def coupled_def)

text \<open>
  One click on the name column from the initial state, and a store holding the key
  \<^verbatim>\<open>"name"\<close> with the order \<^verbatim>\<open>"asc"\<close>.
\<close>

theorem coupling_spec_witness:
  "coupled initial
   \<and> run sample [SortClick ''name''] initial
     = Some (initial\<lparr>sortKey := Some ''name'', sortOrder := ''asc''\<rparr>)
   \<and> coupled (initial\<lparr>sortKey := Some ''name'', sortOrder := ''asc''\<rparr>)
   \<and> integral (hydrate (Map.empty(''sortKey'' \<mapsto> ''name'', ''sortOrder'' \<mapsto> ''asc'')) initial)
     = Some (initial\<lparr>sortKey := Some ''name'', sortOrder := ''asc''\<rparr>)
   \<and> coupled (hydrate (Map.empty(''sortKey'' \<mapsto> ''name'', ''sortOrder'' \<mapsto> ''asc'')) initial)
   \<and> restorable initial
   \<and> exact initial
   \<and> coupled
        (hydrate (persist initial (Map.empty(''sortKey'' \<mapsto> ''name'', ''sortOrder'' \<mapsto> ''asc'')))
          initial)
   \<and> integral
        (hydrate (persist initial (Map.empty(''sortKey'' \<mapsto> ''name'', ''sortOrder'' \<mapsto> ''asc'')))
          initial)
     = Some initial"
proof -
  have c: "coupled initial"
    by (simp add: coupled_def initial_def)
  have r: "run sample [SortClick ''name''] initial
     = Some (initial\<lparr>sortKey := Some ''name'', sortOrder := ''asc''\<rparr>)"
    by (simp add: initial_def handleSort_def setPage_def)
  have h: "integral (hydrate (Map.empty(''sortKey'' \<mapsto> ''name'', ''sortOrder'' \<mapsto> ''asc'')) initial)
     = Some (initial\<lparr>sortKey := Some ''name'', sortOrder := ''asc''\<rparr>)"
    unfolding hydrate_initial by (simp add: integral_def toInt_ofInt initial_def)
  have w: "restorable initial" "exact initial"
    by (simp_all add: restorable_def exact_def initial_def)
  note t = coupling_spec [where k = "''name''" and s = initial and C = sample
        and es = "[SortClick ''name'']"
        and s' = "initial\<lparr>sortKey := Some ''name'', sortOrder := ''asc''\<rparr>"
        and st = "Map.empty(''sortKey'' \<mapsto> ''name'', ''sortOrder'' \<mapsto> ''asc'')"
        and h = "initial\<lparr>sortKey := Some ''name'', sortOrder := ''asc''\<rparr>"]
  have y: "coupled (hydrate (Map.empty(''sortKey'' \<mapsto> ''name'', ''sortOrder'' \<mapsto> ''asc'')) initial)"
    using t by (simp add: truthy_def)
  show ?thesis
    using c r h w y t by blast
qed

subsection \<open>The range of the page\<close>

lemma totalPages_filtered:
  "pageSize s \<noteq> 0 \<Longrightarrow>
   totalPages C s = Some \<lceil>real (length (filtered C s)) / real_of_int (pageSize s)\<rceil>"
  by (simp add: totalPages_def length_sorted_view)

lemma pager_in_range:
  assumes inv: "pageInRange C s"
    and p: "pager C s en tg = Some s'"
    and tg: "\<And>tot. 1 < tot \<Longrightarrow> en tot \<Longrightarrow> page s \<le> tot \<Longrightarrow> 1 \<le> tg tot \<and> tg tot \<le> tot"
  shows "pageInRange C s'"
proof -
  let ?t = "\<lceil>real (length (filtered C s)) / real_of_int (pageSize s)\<rceil>"
  have z: "pageSize s \<noteq> 0" and lo: "1 \<le> page s" and hi: "page s \<le> max 1 ?t"
    using inv by (simp_all add: pageInRange_def)
  have t: "totalPages C s = Some ?t"
    using z by (rule totalPages_filtered)
  from p t have big: "1 < ?t" and en: "en ?t" and s': "s' = setPage (tg ?t) s"
    by (auto simp: pager_def split: if_splits)
  from hi big have "page s \<le> ?t" by simp
  then have "1 \<le> tg ?t \<and> tg ?t \<le> ?t"
    using tg big en by blast
  then show ?thesis
    using z big by (simp add: s' setPage_def pageInRange_def)
qed

lemma bound_mono:
  fixes p :: int
  assumes "p \<noteq> 0" and "a \<le> b"
  shows "max 1 \<lceil>real a / real_of_int p\<rceil> \<le> max 1 \<lceil>real b / real_of_int p\<rceil>"
proof (cases "0 < p")
  case True
  then have "real a / real_of_int p \<le> real b / real_of_int p"
    using assms(2) by (simp add: divide_right_mono)
  then have "\<lceil>real a / real_of_int p\<rceil> \<le> \<lceil>real b / real_of_int p\<rceil>"
    by (rule ceiling_mono)
  then show ?thesis by simp
next
  case False
  then have neg: "real_of_int p < 0" using assms(1) by simp
  have q: "real n / real_of_int p \<le> 0" for n
    using neg by (simp add: divide_nonneg_neg)
  have c: "\<lceil>real n / real_of_int p\<rceil> \<le> 0" for n
    using q [of n] by (simp only: ceiling_le_zero)
  have "max 1 \<lceil>real n / real_of_int p\<rceil> = 1" for n
    using c [of n] by linarith
  then show ?thesis by simp
qed

lemma length_filtered_le: "length (filtered C s) \<le> length (filtered C (s\<lparr>search := ''''\<rparr>))"
proof -
  have "filtered C (s\<lparr>search := ''''\<rparr>) = C"
    by (simp add: filtered_def toLowerCase_def matches_def includes_empty)
  then show ?thesis by (simp add: filtered_def)
qed

lemma step_in_range:
  assumes inv: "pageInRange C s" and st: "step C e s = Some s'"
  shows "pageInRange C s'"
proof (cases e)
  case (SearchChange v)
  with inv st show ?thesis by (auto simp: pageInRange_def setPage_def)
next
  case (PageSizeChange sz)
  with st have "sz \<in> set [10, 25, 50, 100] \<and> s' = setPage 1 (s\<lparr>pageSize := sz\<rparr>)"
    using step_pageSize by blast
  then show ?thesis by (auto simp: pageInRange_def setPage_def)
next
  case Reset
  with st show ?thesis by (auto simp: pageInRange_def handleReset_def)
next
  case ClearSearch
  with st have s': "s' = s\<lparr>search := ''''\<rparr>" by (auto split: if_splits)
  have "max 1 \<lceil>real (length (filtered C s)) / real_of_int (pageSize s)\<rceil>
        \<le> max 1 \<lceil>real (length (filtered C (s\<lparr>search := ''''\<rparr>))) / real_of_int (pageSize s)\<rceil>"
    using inv by (intro bound_mono length_filtered_le) (simp add: pageInRange_def)
  moreover have "pageSize s \<noteq> 0" "1 \<le> page s"
    "page s \<le> max 1 \<lceil>real (length (filtered C s)) / real_of_int (pageSize s)\<rceil>"
    using inv by (simp_all add: pageInRange_def)
  ultimately have "pageSize s \<noteq> 0 \<and> 1 \<le> page s
      \<and> page s \<le> max 1 \<lceil>real (length (filtered C (s\<lparr>search := []\<rparr>))) / real_of_int (pageSize s)\<rceil>"
    by linarith
  then show ?thesis by (simp add: s' pageInRange_def)
next
  case ClearSort
  with st have "s' = s\<lparr>sortKey := None, sortOrder := ''none''\<rparr>" by (auto split: if_splits)
  with inv show ?thesis by (simp add: pageInRange_def)
next
  case (SortClick key)
  with st have "s' = handleSort key s" by (auto split: if_splits)
  with inv show ?thesis
    by (simp add: pageInRange_def handleSort_def setPage_def filtered_def)
next
  case First
  with st have "pager C s (\<lambda>tot. page s \<noteq> 1) (\<lambda>tot. 1) = Some s'" by simp
  with inv show ?thesis by (rule pager_in_range) simp
next
  case Previous
  with st have "pager C s (\<lambda>tot. page s \<noteq> 1) (\<lambda>tot. max (page s - 1) 1) = Some s'" by simp
  with inv show ?thesis by (rule pager_in_range) simp
next
  case (PageButton i)
  with st have "pager C s (\<lambda>tot. 0 \<le> i \<and> i < min 5 tot) (\<lambda>tot. pageNum tot (page s) i) = Some s'"
    by simp
  with inv show ?thesis by (rule pager_in_range) (simp add: pageNum_in_range)
next
  case Next
  with st have "pager C s (\<lambda>tot. page s \<noteq> tot) (\<lambda>tot. min (page s + 1) tot) = Some s'" by simp
  with inv show ?thesis
    by (rule pager_in_range) (use inv in \<open>simp add: pageInRange_def\<close>)
next
  case Last
  with st have "pager C s (\<lambda>tot. page s \<noteq> tot) (\<lambda>tot. tot) = Some s'" by simp
  with inv show ?thesis by (rule pager_in_range) simp
qed

lemma run_in_range: "run C es s = Some s' \<Longrightarrow> pageInRange C s \<Longrightarrow> pageInRange C s'"
proof (induction es arbitrary: s)
  case Nil
  then show ?case by simp
next
  case (Cons e es)
  then show ?case by (auto split: option.splits dest: step_in_range)
qed

lemma pager_target:
  assumes "pager C s en tg = Some s'"
  obtains t where "totalPages C s = Some t" and "1 < t" and "en t" and "s' = setPage (tg t) s"
  using assms by (auto simp: pager_def split: option.splits if_splits)

lemma step_page_one:
  assumes "e \<in> set [SearchChange v, PageSizeChange z, SortClick k, Reset]"
    and "step C e s = Some s'"
  shows "page s' = 1"
proof -
  from assms(1) consider "e = SearchChange v" | "e = PageSizeChange z" | "e = SortClick k"
    | "e = Reset"
    by auto
  then show ?thesis
  proof cases
    case 1
    with assms(2) show ?thesis by (auto simp: setPage_def)
  next
    case 2
    with assms(2) step_pageSize [of C z s s'] show ?thesis by (simp add: setPage_def)
  next
    case 3
    with assms(2) show ?thesis by (auto simp: handleSort_def setPage_def split: if_splits)
  next
    case 4
    with assms(2) show ?thesis by (auto simp: handleReset_def)
  qed
qed

lemma step_page_same:
  assumes "e \<in> set [ClearSearch, ClearSort]" and "step C e s = Some s'"
  shows "page s' = page s"
  using assms by (auto split: if_splits)

lemma step_pager_target:
  assumes e: "e \<in> set [First, Previous, PageButton i, Next, Last]"
    and inv: "pageInRange C s" and st: "step C e s = Some s'"
  shows "\<exists>t. totalPages C s = Some t \<and> 1 < t \<and> 1 \<le> page s' \<and> page s' \<le> t"
proof -
  let ?t = "\<lceil>real (length (filtered C s)) / real_of_int (pageSize s)\<rceil>"
  have z: "pageSize s \<noteq> 0" and lo: "1 \<le> page s" and hi: "page s \<le> max 1 ?t"
    using inv by (simp_all add: pageInRange_def)
  have t: "totalPages C s = Some ?t"
    using z by (rule totalPages_filtered)
  have r: "\<exists>t. totalPages C s = Some t \<and> 1 < t \<and> 1 \<le> page s' \<and> page s' \<le> t"
    if p: "pager C s en tg = Some s'"
      and tg: "\<And>tot. 1 < tot \<Longrightarrow> en tot \<Longrightarrow> page s \<le> tot \<Longrightarrow> 1 \<le> tg tot \<and> tg tot \<le> tot"
    for en tg
  proof -
    from p obtain u where u: "totalPages C s = Some u" "1 < u" "en u" "s' = setPage (tg u) s"
      by (rule pager_target)
    from u(1) t have "u = ?t" by simp
    with hi u(2) have "page s \<le> u" by simp
    with tg u(2,3) have "1 \<le> tg u \<and> tg u \<le> u" by blast
    with u show ?thesis by (simp add: setPage_def)
  qed
  from e consider "e = First" | "e = Previous" | "e = PageButton i" | "e = Next" | "e = Last"
    by auto
  then show ?thesis
  proof cases
    case 1
    with st have "pager C s (\<lambda>tot. page s \<noteq> 1) (\<lambda>tot. 1) = Some s'" by simp
    then show ?thesis by (rule r) simp
  next
    case 2
    with st have "pager C s (\<lambda>tot. page s \<noteq> 1) (\<lambda>tot. max (page s - 1) 1) = Some s'" by simp
    then show ?thesis by (rule r) simp
  next
    case 3
    with st have "pager C s (\<lambda>tot. 0 \<le> i \<and> i < min 5 tot) (\<lambda>tot. pageNum tot (page s) i) = Some s'"
      by simp
    then show ?thesis by (rule r) (simp add: pageNum_in_range)
  next
    case 4
    with st have "pager C s (\<lambda>tot. page s \<noteq> tot) (\<lambda>tot. min (page s + 1) tot) = Some s'" by simp
    then show ?thesis by (rule r) (use lo in simp)
  next
    case 5
    with st have "pager C s (\<lambda>tot. page s \<noteq> tot) (\<lambda>tot. tot) = Some s'" by simp
    then show ?thesis by (rule r) simp
  qed
qed

lemma page_hydrate:
  "w \<noteq> '''' \<Longrightarrow> page (hydrate (st(''page'' \<mapsto> w)) initial) = Number w"
  unfolding hydrate_initial by simp

text \<open>
  Claim C3, as the code has it. The initial state has its page in range, and every
  sequence of user events keeps the page in range. Typing in the search box, choosing a
  page size, clicking a column header and Reset set the page to 1; clearing the search or
  the sort leaves the page as it is; First, Previous, a page number, Next and Last, pressed
  in a state with its page in range, pass a page from 1 to \<^verbatim>\<open>totalPages\<close>.
  \<^verbatim>\<open>setPage\<close> itself stores its argument as it is, and hydration stores \<^verbatim>\<open>Number\<close> of
  the persisted page as it is: for a page from \<open>-2^53\<close> to \<open>2^53\<close> that \<^verbatim>\<open>String\<close>
  wrote, that page. A session that starts from the store written for a state with its page
  in range stays in range, when that state is restorable and exact as the states at the
  end of a session are.
\<close>

theorem page_range_spec:
  "pageInRange C initial
   \<and> (pageInRange C s \<and> run C es s = Some s' \<longrightarrow> pageInRange C s')
   \<and> (e1 \<in> set [SearchChange v, PageSizeChange z, SortClick k, Reset] \<and> step C e1 s1 = Some s1'
        \<longrightarrow> page s1' = 1)
   \<and> (e2 \<in> set [ClearSearch, ClearSort] \<and> step C e2 s2 = Some s2' \<longrightarrow> page s2' = page s2)
   \<and> (e3 \<in> set [First, Previous, PageButton i, Next, Last] \<and> pageInRange C s3
        \<and> step C e3 s3 = Some s3'
        \<longrightarrow> (\<exists>t. totalPages C s3 = Some t \<and> 1 < t \<and> 1 \<le> page s3' \<and> page s3' \<le> t))
   \<and> page (setPage n s) = n
   \<and> (w \<noteq> '''' \<longrightarrow> page (hydrate (st(''page'' \<mapsto> w)) initial) = Number w)
   \<and> (\<bar>m\<bar> \<le> 9007199254740992 \<longrightarrow>
        page (hydrate (st(''page'' \<mapsto> String m)) initial) = ofInt m)
   \<and> (pageInRange C s \<and> restorable s \<and> exact s \<and> session (persist s st) C es = Some s'
        \<longrightarrow> pageInRange C s')"
proof (intro conjI impI)
  show "pageInRange C initial"
    by (simp add: pageInRange_def initial_def)
  show "pageInRange C s'" if "pageInRange C s \<and> run C es s = Some s'"
    using that run_in_range by blast
  show "page s1' = 1"
    if "e1 \<in> set [SearchChange v, PageSizeChange z, SortClick k, Reset] \<and> step C e1 s1 = Some s1'"
    using that step_page_one by blast
  show "page s2' = page s2" if "e2 \<in> set [ClearSearch, ClearSort] \<and> step C e2 s2 = Some s2'"
    using that step_page_same by blast
  show "\<exists>t. totalPages C s3 = Some t \<and> 1 < t \<and> 1 \<le> page s3' \<and> page s3' \<le> t"
    if "e3 \<in> set [First, Previous, PageButton i, Next, Last] \<and> pageInRange C s3
        \<and> step C e3 s3 = Some s3'"
    using that step_pager_target by blast
  show "page (setPage n s) = n"
    by (simp add: setPage_def)
  show "page (hydrate (st(''page'' \<mapsto> w)) initial) = Number w" if "w \<noteq> ''''"
    using that by (rule page_hydrate)
  show "page (hydrate (st(''page'' \<mapsto> String m)) initial) = ofInt m"
    if "\<bar>m\<bar> \<le> 9007199254740992"
    using that by (simp add: page_hydrate String_nonempty Number_String)
  show "pageInRange C s'"
    if a: "pageInRange C s \<and> restorable s \<and> exact s \<and> session (persist s st) C es = Some s'"
  proof -
    from a have i: "integral (hydrate (persist s st) initial) = Some s"
      by (simp add: integral_hydrate_persist)
    from a have "run C es s = Some s'"
      by (auto simp: session_def i split: if_splits)
    with a show ?thesis
      using run_in_range by blast
  qed
qed

text \<open>
  Claim C3 as stated fails: from a store holding the page \<^verbatim>\<open>"999"\<close>, with no comments,
  the session is on page 999, beyond the only page; and \<^verbatim>\<open>setPage(999)\<close> stores 999.
\<close>

theorem page_range_counterexample:
  "session (Map.empty(''page'' \<mapsto> ''999'')) [] [] = Some (initial\<lparr>page := 999\<rparr>)
   \<and> \<not> pageInRange [] (initial\<lparr>page := 999\<rparr>)
   \<and> page (setPage 999 initial) = 999"
proof -
  have n: "Number ''999'' = ofInt 999"
    by (simp add: Number_eval ofInt_def)
  have "session (Map.empty(''page'' \<mapsto> ''999'')) [] [] = Some (initial\<lparr>page := 999\<rparr>)"
    unfolding session_def hydrate_initial
    by (simp add: n integral_def toInt_ofInt initial_def)
  moreover have "\<not> pageInRange [] (initial\<lparr>page := 999\<rparr>)"
    by (simp add: pageInRange_def filtered_def initial_def)
  ultimately show ?thesis
    by (simp add: setPage_def)
qed

text \<open>
  Twelve comments at page size 10: Next from the initial state leads to page 2; choosing
  25 per page on page 2 leads to page 1; clearing the sort on page 2 stays on page 2; the
  stored page \<^verbatim>\<open>"abc"\<close> is hydrated as \<^verbatim>\<open>Number("abc")\<close>, and a stored page 7 as
  page 7.
\<close>

theorem page_range_spec_witness:
  "pageInRange twelve initial
   \<and> run twelve [Next] initial = Some (initial\<lparr>page := 2\<rparr>)
   \<and> pageInRange twelve (initial\<lparr>page := 2\<rparr>)
   \<and> step twelve (PageSizeChange 25) (initial\<lparr>page := 2\<rparr>) = Some (initial\<lparr>pageSize := 25\<rparr>)
   \<and> page (initial\<lparr>pageSize := 25\<rparr>) = 1
   \<and> step twelve ClearSort (initial\<lparr>page := 2, sortKey := Some ''name'', sortOrder := ''asc''\<rparr>)
       = Some (initial\<lparr>page := 2\<rparr>)
   \<and> page (initial\<lparr>page := 2\<rparr>)
       = page (initial\<lparr>page := 2, sortKey := Some ''name'', sortOrder := ''asc''\<rparr>)
   \<and> step twelve Next initial = Some (initial\<lparr>page := 2\<rparr>)
   \<and> totalPages twelve initial = Some 2
   \<and> page (initial\<lparr>page := 2\<rparr>) \<le> 2
   \<and> page (setPage 7 initial) = 7
   \<and> ''abc'' \<noteq> ''''
   \<and> page (hydrate (Map.empty(''page'' \<mapsto> ''abc'')) initial) = Number ''abc''
   \<and> \<bar>7 :: int\<bar> \<le> 9007199254740992
   \<and> page (hydrate (Map.empty(''page'' \<mapsto> String 7)) initial) = ofInt 7
   \<and> restorable initial
   \<and> exact initial
   \<and> session (persist initial Map.empty) twelve [Next] = Some (initial\<lparr>page := 2\<rparr>)"
proof -
  have f: "filtered twelve initial = twelve"
    by (simp add: filtered_no_search initial_def)
  have v: "sorted_view twelve initial = twelve"
    by (simp add: sorted_view_def filtered_no_search initial_def)
  have l: "length twelve = 12"
    by (simp add: twelve_def)
  have z: "pageSize initial = 10" "page initial = 1"
    by (simp_all add: initial_def)
  have i: "pageInRange twelve initial"
    unfolding pageInRange_def f l z by simp
  have t: "totalPages twelve initial = Some 2"
    unfolding totalPages_def v l z by simp
  have n: "step twelve Next initial = Some (initial\<lparr>page := 2\<rparr>)"
    by (simp add: pager_def t z setPage_def)
  then have r: "run twelve [Next] initial = Some (initial\<lparr>page := 2\<rparr>)"
    by simp
  have c: "toInt (Number (String 25)) = Some 25"
    by (rule pageSize_choice) simp
  have p: "step twelve (PageSizeChange 25) (initial\<lparr>page := 2\<rparr>) = Some (initial\<lparr>pageSize := 25\<rparr>)"
    by (simp add: c setPage_def initial_def)
  have d: "step twelve ClearSort (initial\<lparr>page := 2, sortKey := Some ''name'', sortOrder := ''asc''\<rparr>)
       = Some (initial\<lparr>page := 2\<rparr>)"
    by (simp add: truthy_def initial_def)
  have w: "restorable initial" "exact initial"
    by (simp_all add: restorable_def exact_def initial_def)
  have s: "session (persist initial Map.empty) twelve [Next] = Some (initial\<lparr>page := 2\<rparr>)"
    unfolding session_def integral_hydrate_persist [OF w] using r l by simp
  note spec = page_range_spec [where C = twelve and s = initial and es = "[Next]"
        and s' = "initial\<lparr>page := 2\<rparr>"
        and ?e1.0 = "PageSizeChange 25" and v = "''x''" and z = 25 and k = "''name''"
        and ?s1.0 = "initial\<lparr>page := 2\<rparr>" and s1' = "initial\<lparr>pageSize := 25\<rparr>"
        and ?e2.0 = ClearSort
        and ?s2.0 = "initial\<lparr>page := 2, sortKey := Some ''name'', sortOrder := ''asc''\<rparr>"
        and s2' = "initial\<lparr>page := 2\<rparr>"
        and ?e3.0 = Next and i = 0 and ?s3.0 = initial and s3' = "initial\<lparr>page := 2\<rparr>"
        and n = 7 and w = "''abc''" and st = Map.empty and m = 7]
  have a1: "pageInRange twelve (initial\<lparr>page := 2\<rparr>)"
    using spec i r by blast
  have a2: "page (initial\<lparr>pageSize := 25\<rparr>) = 1"
    using spec p by simp
  have a3: "page (initial\<lparr>page := 2\<rparr>)
       = page (initial\<lparr>page := 2, sortKey := Some ''name'', sortOrder := ''asc''\<rparr>)"
    using spec d by simp
  have a4: "page (initial\<lparr>page := 2\<rparr>) \<le> 2"
    using spec i n t by simp
  have a5: "page (setPage 7 initial) = 7"
    using spec by blast
  have a6: "page (hydrate (Map.empty(''page'' \<mapsto> ''abc'')) initial) = Number ''abc''"
    using spec by simp
  have a7: "page (hydrate (Map.empty(''page'' \<mapsto> String 7)) initial) = ofInt 7"
    using spec by simp
  show ?thesis
    using i r a1 p a2 d a3 n t a4 a5 a6 a7 w s by simp
qed

end
